theory Spec2Isabelle
  imports Complex_Main
begin

section \<open>The speed test engine (lib/speedtest.ts)\<close>

text \<open>
  The engine is asynchronous TypeScript running on one thread of control: every
  \<^verbatim>\<open>await\<close> suspends the caller until the awaited operation settles. It is embedded
  as explicit state passing over a record \<open>world\<close> of everything the code reads
  from or writes to its environment: the monotonic clock (\<^verbatim>\<open>performance.now()\<close>), the
  replies the network is going to give, the instant at which the caller fires the
  \<^verbatim>\<open>AbortSignal\<close>, and a trace of the observable effects in the order they happen.
  A rejected promise or a \<^verbatim>\<open>throw\<close> is the \<open>Inl\<close> branch of a sum.

  JavaScript numbers are modelled without rounding: as \<open>real\<close> where the code only
  produces finite values (clock readings, their differences, the latency statistics, the
  progress values), and as \<open>number\<close>, which has \<^verbatim>\<open>Infinity\<close> and \<^verbatim>\<open>NaN\<close>, where
  it divides by a measured time (the throughput values). The retry budget is an \<open>int\<close>. The cache-busting part of the URLs and the
  random upload payload do not influence any value the engine computes and are left out of
  the requests.
\<close>

subsection \<open>Types of the source\<close>

datatype SpeedTestPhase = Idle | Latency | Download | Upload | Completed | Error

record LatencyMetrics =
  average :: real
  min_ms :: real
  max_ms :: real
  jitter :: real
  samples :: "real list"

text \<open>
  The values of a JavaScript number that the throughput arithmetic can produce, with the
  division and the addition of IEEE 754 on them. A zero is the positive zero: the code
  obtains its zeros as the difference of two equal clock readings.
\<close>

datatype number = Num real | Infinity | NegInfinity | NaN

fun js_div :: "number \<Rightarrow> number \<Rightarrow> number" where
  "js_div (Num a) (Num b) =
     (if b \<noteq> 0 then Num (a / b)
      else if 0 < a then Infinity else if a < 0 then NegInfinity else NaN)"
| "js_div (Num a) Infinity = Num 0"
| "js_div (Num a) NegInfinity = Num 0"
| "js_div Infinity (Num b) = (if 0 \<le> b then Infinity else NegInfinity)"
| "js_div NegInfinity (Num b) = (if 0 \<le> b then NegInfinity else Infinity)"
| "js_div x y = NaN"

fun js_add :: "number \<Rightarrow> number \<Rightarrow> number" where
  "js_add (Num a) (Num b) = Num (a + b)"
| "js_add NaN y = NaN"
| "js_add x NaN = NaN"
| "js_add Infinity NegInfinity = NaN"
| "js_add NegInfinity Infinity = NaN"
| "js_add Infinity y = Infinity"
| "js_add x Infinity = Infinity"
| "js_add NegInfinity y = NegInfinity"
| "js_add x NegInfinity = NegInfinity"

record ThroughputSample =
  sizeBytes :: nat
  durationSeconds :: real
  mbps :: number

record SpeedTestResult =
  downloadMbps :: "number option"
  uploadMbps :: "number option"
  latency :: "LatencyMetrics option"
  timestamp :: real

record RunSpeedTestOptions =
  onProgress :: bool
  signal :: bool
  enableUpload :: bool
  retries :: int

text \<open>
  \<open>onProgress\<close> and \<open>signal\<close> say whether the caller supplied the callback and the
  signal. The callback is the caller's code: calling it is the effect \<open>Progress\<close> below.
  The record holds the options after the defaults of the parameter list
  (\<^verbatim>\<open>enableUpload = true\<close>, \<^verbatim>\<open>retries = 2\<close>) have been filled in.
\<close>

definition DOWNLOAD_SIZES :: "nat list" where
  "DOWNLOAD_SIZES = [1048576, 5242880, 10485760]"

definition UPLOAD_SIZES :: "nat list" where
  "UPLOAD_SIZES = [1048576, 2097152]"

definition LATENCY_ATTEMPTS :: nat where
  "LATENCY_ATTEMPTS = 8"

subsection \<open>The environment\<close>

datatype jsval =
  JUndefined | JNull | JBool bool | JNum real | JStr string
  | JObj "(string \<times> jsval) list" | JArr "jsval list"

datatype request = GetLatency | GetDownload nat | PostUpload nat | GetMeta

datatype error =
  HttpError request nat | NetworkError | AbortError | SyntaxError | QuotaExceededError

text \<open>
  A reply of the network to one request: a response with its status, the milliseconds
  until its headers arrive, the milliseconds needed to drain its body and the body as
  parsed JSON (\<open>None\<close> when it is not JSON); or a connection failure after some
  milliseconds.
\<close>

datatype reply = Reply nat real real "jsval option" | NetFail real

datatype event = Fetch request | Sleep int | Progress real SpeedTestPhase | Warn error

record world =
  now :: real
  epoch :: real
  network :: "reply list"
  abort_at :: "real option"
  quota :: nat
  trace :: "event list"

text \<open>
  \<open>epoch\<close> is the wall-clock time at which the monotonic clock read 0, so that
  \<^verbatim>\<open>Date.now()\<close> is \<open>epoch w + now w\<close>. \<open>quota\<close> is the largest number of
  bytes that the platform fills in one call of \<^verbatim>\<open>crypto.getRandomValues\<close>; a longer
  array makes the call throw (the Web Cryptography standard fixes the limit at 65536).
\<close>

record response =
  status :: nat
  drain_ms :: real
  body :: "jsval option"
  res_signal :: bool

definition ok :: "response \<Rightarrow> bool" where
  "ok res = (200 \<le> status res \<and> status res \<le> 299)"

text \<open>
  \<open>interrupt sig d w\<close>: an operation that holds the signal (\<open>sig\<close>) and would take
  \<open>d\<close> milliseconds from now is interrupted at the returned instant when the signal has
  fired already or fires before the operation ends.
\<close>

definition interrupt :: "bool \<Rightarrow> real \<Rightarrow> 'z world_scheme \<Rightarrow> real option" where
  "interrupt sig d w =
     (case abort_at w of
        None \<Rightarrow> None
      | Some t \<Rightarrow> if sig \<and> (t \<le> now w \<or> t < now w + d) then Some (max t (now w)) else None)"

definition aborted :: "'z world_scheme \<Rightarrow> bool" where
  "aborted w = (case abort_at w of None \<Rightarrow> False | Some t \<Rightarrow> t \<le> now w)"

text \<open>
  \<^verbatim>\<open>fetch(url, { signal })\<close>. With a signal that has fired it rejects at once and
  no request reaches the network. A network with no reply left is unreachable.
\<close>

definition fetch ::
  "request \<Rightarrow> bool \<Rightarrow> 'z world_scheme \<Rightarrow> (error + response) \<times> 'z world_scheme" where
  "fetch req sig w =
     (let w0 = w\<lparr>trace := trace w @ [Fetch req]\<rparr> in
      if sig \<and> aborted w then (Inl AbortError, w0)
      else
        (case network w of
           [] \<Rightarrow> (Inl NetworkError, w0)
         | NetFail ms # rest \<Rightarrow>
             (case interrupt sig ms w of
                Some t \<Rightarrow> (Inl AbortError, w0\<lparr>now := t, network := rest\<rparr>)
              | None \<Rightarrow> (Inl NetworkError, w0\<lparr>now := now w + ms, network := rest\<rparr>))
         | Reply st h d b # rest \<Rightarrow>
             (case interrupt sig h w of
                Some t \<Rightarrow> (Inl AbortError, w0\<lparr>now := t, network := rest\<rparr>)
              | None \<Rightarrow>
                  (Inr \<lparr>status = st, drain_ms = d, body = b, res_signal = sig\<rparr>,
                   w0\<lparr>now := now w + h, network := rest\<rparr>))))"

text \<open>\<^verbatim>\<open>response.arrayBuffer()\<close>: drains the body, unless the signal interrupts it.\<close>

definition arrayBuffer ::
  "response \<Rightarrow> 'z world_scheme \<Rightarrow> (error + unit) \<times> 'z world_scheme" where
  "arrayBuffer res w =
     (case interrupt (res_signal res) (drain_ms res) w of
        Some t \<Rightarrow> (Inl AbortError, w\<lparr>now := t\<rparr>)
      | None \<Rightarrow> (Inr (), w\<lparr>now := now w + drain_ms res\<rparr>))"

text \<open>\<^verbatim>\<open>response.json()\<close>: drains the body and parses it.\<close>

definition json ::
  "response \<Rightarrow> 'z world_scheme \<Rightarrow> (error + jsval) \<times> 'z world_scheme" where
  "json res w =
     (case arrayBuffer res w of
        (Inl e, w') \<Rightarrow> (Inl e, w')
      | (Inr u, w') \<Rightarrow>
          (case body res of None \<Rightarrow> (Inl SyntaxError, w') | Some v \<Rightarrow> (Inr v, w')))"

text \<open>\<^verbatim>\<open>await new Promise((resolve) => setTimeout(resolve, ms))\<close>\<close>

definition sleep :: "int \<Rightarrow> 'z world_scheme \<Rightarrow> 'z world_scheme" where
  "sleep ms w = w\<lparr>now := now w + real_of_int ms, trace := trace w @ [Sleep ms]\<rparr>"

subsection \<open>withRetry\<close>

text \<open>
  \<open>lastError\<close> is \<open>None\<close> while the variable is still \<^verbatim>\<open>undefined\<close>. The loop
  variable \<open>attempt\<close> and the state are arguments of the recursion.
\<close>

function withRetry_loop ::
  "('z world_scheme \<Rightarrow> ('e + 'a) \<times> 'z world_scheme) \<Rightarrow> int \<Rightarrow> int \<Rightarrow> 'e option \<Rightarrow>
   'z world_scheme \<Rightarrow> ('e option + 'a) \<times> 'z world_scheme" where
  "withRetry_loop fn r attempt lastError w =
     (if attempt \<le> r then
        (case fn w of
           (Inr v, w') \<Rightarrow> (Inr v, w')
         | (Inl e, w') \<Rightarrow>
             if attempt = r then (Inl (Some e), w')
             else withRetry_loop fn r (attempt + 1) (Some e)
                    (sleep (300 * (attempt + 1)) w'))
      else (Inl lastError, w))"
  by pat_completeness auto
termination
  by (relation "measure (\<lambda>(fn, r, attempt, lastError, w). nat (r + 1 - attempt))")
     auto

declare withRetry_loop.simps [simp del]

text \<open>The parameter \<^verbatim>\<open>retries\<close> of the source is \<open>r\<close> here.\<close>

definition withRetry ::
  "('z world_scheme \<Rightarrow> ('e + 'a) \<times> 'z world_scheme) \<Rightarrow> int \<Rightarrow>
   'z world_scheme \<Rightarrow> ('e option + 'a) \<times> 'z world_scheme" where
  "withRetry fn r w = withRetry_loop fn r 0 None w"

subsection \<open>getIspInformation\<close>

text \<open>Truthiness of a value, for \<^verbatim>\<open>||\<close>.\<close>

fun truthy :: "jsval \<Rightarrow> bool" where
  "truthy JUndefined = False"
| "truthy JNull = False"
| "truthy (JBool b) = b"
| "truthy (JNum n) = (n \<noteq> 0)"
| "truthy (JStr s) = (s \<noteq> [])"
| "truthy (JObj kvs) = True"
| "truthy (JArr vs) = True"

definition js_or :: "jsval \<Rightarrow> jsval \<Rightarrow> jsval" where
  "js_or a b = (if truthy a then a else b)"

text \<open>
  Optional chaining \<^verbatim>\<open>x?.k\<close> for the property names the source reads
  (\<^verbatim>\<open>client\<close>, \<^verbatim>\<open>asn\<close>, \<^verbatim>\<open>name\<close>, \<^verbatim>\<open>iata\<close>, \<^verbatim>\<open>ip\<close>): only an object
  can have them.
\<close>

fun chain :: "jsval \<Rightarrow> string \<Rightarrow> jsval" where
  "chain (JObj kvs) k = (case map_of kvs k of None \<Rightarrow> JUndefined | Some v \<Rightarrow> v)"
| "chain v k = JUndefined"

text \<open>The body of the \<^verbatim>\<open>try\<close> block.\<close>

definition getIspInformation_try ::
  "'z world_scheme \<Rightarrow> (error + jsval) \<times> 'z world_scheme" where
  "getIspInformation_try w =
     (case fetch GetMeta False w of
        (Inl e, w1) \<Rightarrow> (Inl e, w1)
      | (Inr res, w1) \<Rightarrow>
          if \<not> ok res then (Inl (HttpError GetMeta (status res)), w1)
          else
            (case json res w1 of
               (Inl e, w2) \<Rightarrow> (Inl e, w2)
             | (Inr data, w2) \<Rightarrow>
                 (Inr (js_or (chain (chain (chain data ''client'') ''asn'') ''name'')
                        (js_or (chain (chain data ''client'') ''iata'')
                               (chain (chain data ''client'') ''ip''))),
                  w2)))"

definition getIspInformation ::
  "'z world_scheme \<Rightarrow> (error + jsval) \<times> 'z world_scheme" where
  "getIspInformation w =
     (case getIspInformation_try w of
        (Inr v, w') \<Rightarrow> (Inr v, w')
      | (Inl e, w') \<Rightarrow> (Inr JUndefined, w'\<lparr>trace := trace w' @ [Warn e]\<rparr>))"

subsection \<open>measureLatency\<close>

text \<open>
  \<^verbatim>\<open>Math.min(...xs)\<close> and \<^verbatim>\<open>Math.max(...xs)\<close>. For no argument JavaScript answers
  \<^verbatim>\<open>Infinity\<close> and \<^verbatim>\<open>-Infinity\<close>, which \<open>real\<close> does not have; the source calls
  them with \<open>LATENCY_ATTEMPTS\<close> arguments only.
\<close>

fun Math_min :: "real list \<Rightarrow> real" where
  "Math_min [] = 0"
| "Math_min (x # xs) = foldl min x xs"

fun Math_max :: "real list \<Rightarrow> real" where
  "Math_max [] = 0"
| "Math_max (x # xs) = foldl max x xs"

function measureLatency_loop ::
  "bool \<Rightarrow> nat \<Rightarrow> real list \<Rightarrow> 'z world_scheme \<Rightarrow> (error + real list) \<times> 'z world_scheme" where
  "measureLatency_loop sig i acc w =
     (if i < LATENCY_ATTEMPTS then
        (let start = now w in
         case fetch GetLatency sig w of
           (Inl e, w1) \<Rightarrow> (Inl e, w1)
         | (Inr res, w1) \<Rightarrow>
             if \<not> ok res then (Inl (HttpError GetLatency (status res)), w1)
             else
               (case arrayBuffer res w1 of
                  (Inl e, w2) \<Rightarrow> (Inl e, w2)
                | (Inr u, w2) \<Rightarrow>
                    (let duration = now w2 - start
                     in measureLatency_loop sig (i + 1) (acc @ [duration]) w2)))
      else (Inr acc, w))"
  by pat_completeness auto
termination
  by (relation "measure (\<lambda>(sig, i, acc, w). LATENCY_ATTEMPTS - i)") auto

declare measureLatency_loop.simps [simp del]

definition measureLatency ::
  "bool \<Rightarrow> 'z world_scheme \<Rightarrow> (error + LatencyMetrics) \<times> 'z world_scheme" where
  "measureLatency sig w =
     (case measureLatency_loop sig 0 [] w of
        (Inl e, w') \<Rightarrow> (Inl e, w')
      | (Inr xs, w') \<Rightarrow>
          (let avg = foldl (\<lambda>acc value. acc + value) 0 xs / real (length xs);
               mn = Math_min xs;
               mx = Math_max xs;
               jit = foldl (\<lambda>acc value. acc + \<bar>value - avg\<bar>) 0 xs / real (length xs)
           in (Inr \<lparr>average = avg, min_ms = mn, max_ms = mx, jitter = jit, samples = xs\<rparr>,
               w')))"

subsection \<open>The throughput probes\<close>

text \<open>
  The parameter \<^verbatim>\<open>sizeBytes\<close> of the source is \<open>bytes\<close> here. When the clock does
  not advance during a probe, \<open>seconds\<close> is 0 and \<open>mbps\<close> is \<^verbatim>\<open>Infinity\<close>.
\<close>

definition measureDownloadForSize ::
  "nat \<Rightarrow> bool \<Rightarrow> 'z world_scheme \<Rightarrow> (error + ThroughputSample) \<times> 'z world_scheme" where
  "measureDownloadForSize bytes sig w =
     (let start = now w in
      case fetch (GetDownload bytes) sig w of
        (Inl e, w1) \<Rightarrow> (Inl e, w1)
      | (Inr res, w1) \<Rightarrow>
          if \<not> ok res then (Inl (HttpError (GetDownload bytes) (status res)), w1)
          else
            (case arrayBuffer res w1 of
               (Inl e, w2) \<Rightarrow> (Inl e, w2)
             | (Inr u, w2) \<Rightarrow>
                 (let seconds = (now w2 - start) / 1000;
                      m = js_div (js_div (Num (real bytes * 8)) (Num seconds)) (Num 1000000)
                  in (Inr \<lparr>sizeBytes = bytes, durationSeconds = seconds, mbps = m\<rparr>, w2))))"

text \<open>
  \<^verbatim>\<open>crypto.getRandomValues(data)\<close> for an array of \<open>n\<close> bytes. The bytes themselves
  are not modelled.
\<close>

definition getRandomValues :: "nat \<Rightarrow> 'z world_scheme \<Rightarrow> (error + unit) \<times> 'z world_scheme" where
  "getRandomValues n w = (if quota w < n then (Inl QuotaExceededError, w) else (Inr (), w))"

definition measureUploadForSize ::
  "nat \<Rightarrow> bool \<Rightarrow> 'z world_scheme \<Rightarrow> (error + ThroughputSample) \<times> 'z world_scheme" where
  "measureUploadForSize bytes sig w =
     (case getRandomValues bytes w of
        (Inl e, w0) \<Rightarrow> (Inl e, w0)
      | (Inr u, w0) \<Rightarrow>
          (let start = now w0 in
           case fetch (PostUpload bytes) sig w0 of
             (Inl e, w1) \<Rightarrow> (Inl e, w1)
           | (Inr res, w1) \<Rightarrow>
               if \<not> ok res then (Inl (HttpError (PostUpload bytes) (status res)), w1)
               else
                 (case arrayBuffer res w1 of
                    (Inl e, w2) \<Rightarrow> (Inl e, w2)
                  | (Inr u, w2) \<Rightarrow>
                      (let seconds = (now w2 - start) / 1000;
                           m = js_div (js_div (Num (real bytes * 8)) (Num seconds))
                                 (Num 1000000)
                       in (Inr \<lparr>sizeBytes = bytes, durationSeconds = seconds, mbps = m\<rparr>,
                           w2)))))"

definition averageThroughput :: "ThroughputSample list \<Rightarrow> number" where
  "averageThroughput xs =
     (if length xs = 0 then Num 0
      else (let total = foldl (\<lambda>acc sample. js_add acc (mbps sample)) (Num 0) xs
            in js_div total (Num (real (length xs)))))"

subsection \<open>runSpeedTest\<close>

text \<open>The local function \<^verbatim>\<open>progress\<close> of \<^verbatim>\<open>runSpeedTest\<close>.\<close>

definition progress ::
  "RunSpeedTestOptions \<Rightarrow> real \<Rightarrow> SpeedTestPhase \<Rightarrow> 'z world_scheme \<Rightarrow> 'z world_scheme" where
  "progress opts v phase w =
     (if onProgress opts then w\<lparr>trace := trace w @ [Progress (min 100 (max 0 v)) phase]\<rparr>
      else w)"

text \<open>The two \<^verbatim>\<open>for\<close> loops over the sizes, with the index and the samples so far.\<close>

function download_loop ::
  "RunSpeedTestOptions \<Rightarrow> nat \<Rightarrow> ThroughputSample list \<Rightarrow> 'z world_scheme \<Rightarrow>
   (error option + ThroughputSample list) \<times> 'z world_scheme" where
  "download_loop opts i downloadSamples w =
     (if i < length DOWNLOAD_SIZES then
        (let sz = DOWNLOAD_SIZES ! i in
         case withRetry (measureDownloadForSize sz (signal opts)) (retries opts) w of
           (Inl e, w1) \<Rightarrow> (Inl e, w1)
         | (Inr sample, w1) \<Rightarrow>
             download_loop opts (i + 1) (downloadSamples @ [sample])
               (progress opts (20 + (real (i + 1) / real (length DOWNLOAD_SIZES)) * 55)
                  Download w1))
      else (Inr downloadSamples, w))"
  by pat_completeness auto
termination
  by (relation "measure (\<lambda>(opts, i, xs, w). length DOWNLOAD_SIZES - i)") auto

declare download_loop.simps [simp del]

function upload_loop ::
  "RunSpeedTestOptions \<Rightarrow> nat \<Rightarrow> ThroughputSample list \<Rightarrow> 'z world_scheme \<Rightarrow>
   (error option + ThroughputSample list) \<times> 'z world_scheme" where
  "upload_loop opts i uploadSamples w =
     (if i < length UPLOAD_SIZES then
        (let sz = UPLOAD_SIZES ! i in
         case withRetry (measureUploadForSize sz (signal opts)) (retries opts) w of
           (Inl e, w1) \<Rightarrow> (Inl e, w1)
         | (Inr sample, w1) \<Rightarrow>
             upload_loop opts (i + 1) (uploadSamples @ [sample])
               (progress opts (80 + (real (i + 1) / real (length UPLOAD_SIZES)) * 18)
                  Upload w1))
      else (Inr uploadSamples, w))"
  by pat_completeness auto
termination
  by (relation "measure (\<lambda>(opts, i, xs, w). length UPLOAD_SIZES - i)") auto

declare upload_loop.simps [simp del]

text \<open>The \<^verbatim>\<open>if (enableUpload)\<close> block: the value of \<^verbatim>\<open>uploadMbps\<close> after it.\<close>

definition upload_stage ::
  "RunSpeedTestOptions \<Rightarrow> 'z world_scheme \<Rightarrow>
   (error option + number option) \<times> 'z world_scheme" where
  "upload_stage opts w =
     (if enableUpload opts then
        (case upload_loop opts 0 [] w of
           (Inl e, w1) \<Rightarrow> (Inl e, w1)
         | (Inr uploadSamples, w1) \<Rightarrow> (Inr (Some (averageThroughput uploadSamples)), w1))
      else (Inr None, w))"

definition runSpeedTest ::
  "RunSpeedTestOptions \<Rightarrow> 'z world_scheme \<Rightarrow>
   (error option + SpeedTestResult) \<times> 'z world_scheme" where
  "runSpeedTest opts w =
     (case withRetry (measureLatency (signal opts)) (retries opts) (progress opts 2 Latency w) of
        (Inl e, w1) \<Rightarrow> (Inl e, w1)
      | (Inr lat, w1) \<Rightarrow>
          (case download_loop opts 0 [] (progress opts 20 Latency w1) of
             (Inl e, w2) \<Rightarrow> (Inl e, w2)
           | (Inr downloadSamples, w2) \<Rightarrow>
               (case upload_stage opts w2 of
                  (Inl e, w3) \<Rightarrow> (Inl e, w3)
                | (Inr up, w3) \<Rightarrow>
                    (let w4 = progress opts 100 Completed w3
                     in (Inr \<lparr>downloadMbps = Some (averageThroughput downloadSamples),
                              uploadMbps = up,
                              latency = Some lat,
                              timestamp = epoch w4 + now w4\<rparr>,
                         w4)))))"

subsection \<open>A test double for withRetry\<close>

text \<open>
  An operation that fails on its first \<open>k\<close> calls and succeeds with \<open>v\<close> from then
  on. It counts its calls in a field of its own, and the error of a failing call is the
  number of calls made before it, so that the errors of different attempts differ.
\<close>

record stub_world = world +
  calls :: nat

definition stub ::
  "nat \<Rightarrow> 'a \<Rightarrow> 'z stub_world_scheme \<Rightarrow> (nat + 'a) \<times> 'z stub_world_scheme" where
  "stub k v w = (if calls w < k then Inl (calls w) else Inr v, w\<lparr>calls := calls w + 1\<rparr>)"

definition stub_world0 :: stub_world where
  "stub_world0 =
     \<lparr>now = 0, epoch = 0, network = [], abort_at = None, quota = 65536, trace = [], calls = 0\<rparr>"

text \<open>The events of a trace that are calls of the progress callback.\<close>

fun progress_of :: "event list \<Rightarrow> (real \<times> SpeedTestPhase) list" where
  "progress_of [] = []"
| "progress_of (Progress v p # es) = (v, p) # progress_of es"
| "progress_of (e # es) = progress_of es"


subsection \<open>Worlds for the examples\<close>

definition world0 :: world where
  "world0 = \<lparr>now = 0, epoch = 0, network = [], abort_at = None, quota = 65536, trace = []\<rparr>"

text \<open>The time one reply takes from the request to the end of its body.\<close>

fun reply_ms :: "reply \<Rightarrow> real" where
  "reply_ms (Reply st h d b) = h + d"
| "reply_ms (NetFail ms) = ms"

definition latency_world :: world where
  "latency_world = world0\<lparr>network :=
     [Reply 200 10 2 None, Reply 200 20 2 None, Reply 200 30 2 None, Reply 200 16 2 None,
      Reply 200 18 2 None, Reply 200 18 2 None, Reply 200 8 2 None, Reply 200 24 2 None]\<rparr>"

definition meta_world :: world where
  "meta_world = world0\<lparr>network := [Reply 503 30 1 None]\<rparr>"

text \<open>
  The end-to-end scenario of the specification: every latency sample takes 20 ms, the three
  downloads take 0.1 s, 0.4 s and 0.8 s, the upload is disabled and the budget is 0.
\<close>

definition run_world :: world where
  "run_world = world0\<lparr>network :=
     [Reply 200 18 2 None, Reply 200 18 2 None, Reply 200 18 2 None, Reply 200 18 2 None,
      Reply 200 18 2 None, Reply 200 18 2 None, Reply 200 18 2 None, Reply 200 18 2 None,
      Reply 200 20 80 None, Reply 200 20 380 None, Reply 200 20 780 None]\<rparr>"

definition run_options :: RunSpeedTestOptions where
  "run_options = \<lparr>onProgress = True, signal = True, enableUpload = False, retries = 0\<rparr>"

subsection \<open>What the run reports and adds to the trace\<close>



text \<open>\<open>adds P w w'\<close>: the trace of \<open>w'\<close> is the trace of \<open>w\<close> followed by events that all satisfy \<open>P\<close>.\<close>

definition adds :: "(event \<Rightarrow> bool) \<Rightarrow> 'z world_scheme \<Rightarrow> 'z world_scheme \<Rightarrow> bool" where
  "adds P w w' = (\<exists>evs. trace w' = trace w @ evs \<and> (\<forall>e\<in>set evs. P e))"

text \<open>
  The scenario with the upload enabled, on a platform whose random source fills 2 MiB in
  one call: the uploads of 1 MiB and 2 MiB take 0.2 s and 0.4 s.
\<close>

definition upload_world :: world where
  "upload_world = world0\<lparr>quota := 2097152, network :=
     [Reply 200 18 2 None, Reply 200 18 2 None, Reply 200 18 2 None, Reply 200 18 2 None,
      Reply 200 18 2 None, Reply 200 18 2 None, Reply 200 18 2 None, Reply 200 18 2 None,
      Reply 200 20 80 None, Reply 200 20 380 None, Reply 200 20 780 None,
      Reply 200 150 50 None, Reply 200 350 50 None]\<rparr>"

definition upload_options :: RunSpeedTestOptions where
  "upload_options = \<lparr>onProgress = True, signal = True, enableUpload = True, retries = 0\<rparr>"

text \<open>A download whose reply arrives and drains while the clock stands still.\<close>

definition instant_world :: world where
  "instant_world = world0\<lparr>network := [Reply 200 0 0 None]\<rparr>"

subsection \<open>The average as the specification defines it\<close>

text \<open>
  The unweighted arithmetic mean of a list of throughput values, 0 for the empty list, in
  the arithmetic of JavaScript numbers.
\<close>

definition mean :: "number list \<Rightarrow> number" where
  "mean xs =
     (if xs = [] then Num 0
      else js_div (foldl js_add (Num 0) xs) (Num (real (length xs))))"

subsection \<open>Worlds for cancellation\<close>




text \<open>
  The scenario with the upload enabled, a budget of 2 and the signal fired when the last
  download has ended.
\<close>

definition late_cancel_world :: world where
  "late_cancel_world = run_world\<lparr>abort_at := Some 1460\<rparr>"

definition late_cancel_options :: RunSpeedTestOptions where
  "late_cancel_options = \<lparr>onProgress = True, signal = True, enableUpload = True, retries = 2\<rparr>"

section \<open>Properties\<close>

subsection \<open>withRetry\<close>

lemma calls_sleep: "calls (sleep ms w) = calls w"
  by (simp add: sleep_def)

lemma trace_sleep: "trace (sleep ms w) = trace w @ [Sleep ms]"
  by (simp add: sleep_def)

lemma upto_first: "i \<le> j \<Longrightarrow> [i..j] = i # [i + 1..j]"
  by (simp add: upto_rec1)

lemma withRetry_loop_stub:
  fixes v :: 'a and w :: "'z stub_world_scheme"
  shows "calls w = nat a \<Longrightarrow> 0 \<le> a \<Longrightarrow> a \<le> r \<Longrightarrow> a \<le> int k \<Longrightarrow>
   fst (withRetry_loop (stub k v) r a le w) = (if int k \<le> r then Inr v else Inl (Some (nat r))) \<and>
   calls (snd (withRetry_loop (stub k v) r a le w)) = nat (min (int k) r) + 1 \<and>
   trace (snd (withRetry_loop (stub k v) r a le w)) =
     trace w @ map (\<lambda>j. Sleep (300 * j)) [a + 1..min (int k) r]"
proof (induction "nat (r - a)" arbitrary: a le w)
  case 0
  then have "a = r" by simp
  with 0 show ?case
    by (subst withRetry_loop.simps, subst withRetry_loop.simps, subst withRetry_loop.simps)
       (auto simp: stub_def)
next
  case (Suc n)
  then have lt: "a < r" by simp
  show ?case
  proof (cases "calls w < k")
    case False
    with Suc.prems have "int k = a" by simp
    with False Suc.prems lt show ?thesis
      by (subst withRetry_loop.simps, subst withRetry_loop.simps, subst withRetry_loop.simps)
         (simp add: stub_def)
  next
    case True
    let ?w' = "sleep (300 * (a + 1)) (w\<lparr>calls := calls w + 1\<rparr>)"
    have step: "withRetry_loop (stub k v) r a le w =
                withRetry_loop (stub k v) r (a + 1) (Some (calls w)) ?w'"
      using True lt by (subst withRetry_loop.simps) (simp add: stub_def)
    have n: "n = nat (r - (a + 1))" using Suc.hyps(2) by simp
    have c: "calls ?w' = nat (a + 1)"
      using Suc.prems by (simp add: calls_sleep nat_add_distrib)
    have le: "a + 1 \<le> int k" using True Suc.prems by simp
    have IH: "fst (withRetry_loop (stub k v) r (a + 1) (Some (calls w)) ?w') =
        (if int k \<le> r then Inr v else Inl (Some (nat r))) \<and>
      calls (snd (withRetry_loop (stub k v) r (a + 1) (Some (calls w)) ?w')) =
        nat (min (int k) r) + 1 \<and>
      trace (snd (withRetry_loop (stub k v) r (a + 1) (Some (calls w)) ?w')) =
        trace ?w' @ map (\<lambda>j. Sleep (300 * j)) [a + 1 + 1..min (int k) r]"
      using Suc.hyps(1)[OF n c _ _ le] Suc.prems lt by simp
    have "a + 1 \<le> min (int k) r" using le lt by simp
    then have "[a + 1..min (int k) r] = (a + 1) # [a + 1 + 1..min (int k) r]"
      by (rule upto_first)
    with IH show ?thesis unfolding step by (simp add: trace_sleep)
  qed
qed

text \<open>
  Claim C1. With a retry budget \<open>r \<ge> 0\<close> and an operation that fails exactly \<open>k\<close>
  times and then succeeds: when \<open>k \<le> r\<close>, \<open>withRetry\<close> returns the success value
  and the operation has been invoked exactly \<open>k + 1\<close> times; when \<open>k > r\<close>, the operation
  has been invoked exactly \<open>r + 1\<close> times and \<open>withRetry\<close> throws the error of the last
  attempt (the one numbered \<open>r\<close>) as it is.
\<close>
theorem withRetry_fails_k_times:
  fixes v :: 'a and w :: "'z stub_world_scheme"
  assumes "0 \<le> r" and "calls w = 0"
  shows "(int k \<le> r \<longrightarrow>
            fst (withRetry (stub k v) r w) = Inr v \<and>
            calls (snd (withRetry (stub k v) r w)) = k + 1) \<and>
         (r < int k \<longrightarrow>
            fst (withRetry (stub k v) r w) = Inl (Some (nat r)) \<and>
            calls (snd (withRetry (stub k v) r w)) = nat r + 1)"
  using withRetry_loop_stub [of w 0 r k v None] assms
  by (auto simp: withRetry_def min_def)

theorem withRetry_fails_k_times_witness:
  "(0::int) \<le> 2 \<and> calls stub_world0 = 0 \<and>
   fst (withRetry (stub 1 ''ok'') 2 stub_world0) = Inr ''ok'' \<and>
   calls (snd (withRetry (stub 1 ''ok'') 2 stub_world0)) = 2 \<and>
   fst (withRetry (stub 5 ''ok'') 2 stub_world0) = Inl (Some 2) \<and>
   calls (snd (withRetry (stub 5 ''ok'') 2 stub_world0)) = 3"
  using withRetry_fails_k_times [of 2 stub_world0 1 "''ok''"]
        withRetry_fails_k_times [of 2 stub_world0 5 "''ok''"]
  by (simp add: stub_world0_def)

text \<open>
  Claim C7, as stated: the delay before the first retry would be \<open>300 * (1 + 1)\<close>
  milliseconds. The source sleeps \<open>300 * (attempt + 1)\<close> with \<open>attempt\<close> the index of
  the attempt that has just failed, which is 0 before the first retry.
\<close>

theorem withRetry_backoff_counterexample:
  "trace (snd (withRetry (stub 1 ''ok'') 1 stub_world0)) = [Sleep 300] \<and>
   trace (snd (withRetry (stub 1 ''ok'') 1 stub_world0)) \<noteq> [Sleep (300 * (1 + 1))]"
  by (simp add: withRetry_def withRetry_loop.simps stub_def stub_world0_def sleep_def)

text \<open>
  Claim C7, amended. With a retry budget \<open>r \<ge> 0\<close> and an operation that fails \<open>k\<close>
  times, the delay before the \<open>j\<close>-th retry (\<open>j\<close> from 1) is \<open>300 * j\<close>
  milliseconds, there are \<open>min k r\<close> retries, and the operation is invoked
  \<open>min k r + 1\<close> times, so at most \<open>r + 1\<close> times.
\<close>

theorem withRetry_backoff:
  fixes v :: 'a and w :: "'z stub_world_scheme"
  assumes "0 \<le> r" and "calls w = 0"
  shows "trace (snd (withRetry (stub k v) r w)) =
           trace w @ map (\<lambda>j. Sleep (300 * j)) [1..min (int k) r] \<and>
         calls (snd (withRetry (stub k v) r w)) = nat (min (int k) r) + 1 \<and>
         calls (snd (withRetry (stub k v) r w)) \<le> nat r + 1"
  using withRetry_loop_stub [of w 0 r k v None] assms
  by (auto simp: withRetry_def min_def)

theorem withRetry_backoff_witness:
  "(0::int) \<le> 2 \<and> calls stub_world0 = 0 \<and>
   trace (snd (withRetry (stub 5 ''ok'') 2 stub_world0)) = [Sleep 300, Sleep 600] \<and>
   calls (snd (withRetry (stub 5 ''ok'') 2 stub_world0)) = 3"
  using withRetry_backoff [of 2 stub_world0 5 "''ok''"]
  by (simp add: stub_world0_def upto_rec1)

text \<open>
  Claim C9. With a negative retry budget \<open>withRetry\<close> does not invoke the operation
  (the state is unchanged) and throws the initial value of \<open>lastError\<close>,
  \<^verbatim>\<open>undefined\<close>.
\<close>

theorem withRetry_negative_budget:
  "r < 0 \<Longrightarrow> withRetry fn r w = (Inl None, w)"
  by (simp add: withRetry_def withRetry_loop.simps)

theorem withRetry_negative_budget_witness:
  "(-1::int) < 0 \<and> withRetry (stub 0 ''ok'') (-1) stub_world0 = (Inl None, stub_world0) \<and>
   calls (snd (withRetry (stub 0 ''ok'') (-1) stub_world0)) = 0"
  using withRetry_negative_budget [of "-1" "stub 0 ''ok''" stub_world0]
  by (simp add: stub_world0_def)

subsection \<open>measureLatency\<close>

lemma foldl_plus: "foldl (\<lambda>acc value. acc + f value) a xs = a + sum_list (map f xs)"
  for a :: real
  by (induction xs arbitrary: a) simp_all

lemma foldl_min: "foldl min x xs = Min (insert x (set xs))" for x :: real
proof (induction xs arbitrary: x)
  case Nil
  show ?case by simp
next
  case (Cons y ys)
  have "Min (insert x (insert y (set ys))) = Min (insert (min x y) (set ys))"
    by (cases "set ys = {}") (simp_all add: min.assoc)
  with Cons show ?case by simp
qed

lemma foldl_max: "foldl max x xs = Max (insert x (set xs))" for x :: real
proof (induction xs arbitrary: x)
  case Nil
  show ?case by simp
next
  case (Cons y ys)
  have "Max (insert x (insert y (set ys))) = Max (insert (max x y) (set ys))"
    by (cases "set ys = {}") (simp_all add: max.assoc)
  with Cons show ?case by simp
qed

lemma Math_min_Min: "xs \<noteq> [] \<Longrightarrow> Math_min xs = Min (set xs)"
  by (cases xs) (simp_all add: foldl_min)

lemma Math_max_Max: "xs \<noteq> [] \<Longrightarrow> Math_max xs = Max (set xs)"
  by (cases xs) (simp_all add: foldl_max)

lemma sum_list_lower: "\<forall>x\<in>set xs. m \<le> x \<Longrightarrow> real (length xs) * m \<le> sum_list xs"
  by (induction xs) (auto simp: algebra_simps)

lemma sum_list_upper: "\<forall>x\<in>set xs. x \<le> m \<Longrightarrow> sum_list xs \<le> real (length xs) * m"
  by (induction xs) (auto simp: algebra_simps)

lemma sum_list_abs_nonneg: "0 \<le> sum_list (map (\<lambda>x. \<bar>x - a\<bar>) xs)" for a :: real
  by (induction xs) simp_all

lemma mean_bounds:
  fixes xs :: "real list"
  assumes "xs \<noteq> []"
  shows "Min (set xs) \<le> sum_list xs / real (length xs)"
    and "sum_list xs / real (length xs) \<le> Max (set xs)"
proof -
  have pos: "0 < real (length xs)" using assms by simp
  have "real (length xs) * Min (set xs) \<le> sum_list xs"
    by (rule sum_list_lower) simp
  then show "Min (set xs) \<le> sum_list xs / real (length xs)"
    using pos by (simp add: pos_le_divide_eq mult.commute)
  have "sum_list xs \<le> real (length xs) * Max (set xs)"
    by (rule sum_list_upper) simp
  then show "sum_list xs / real (length xs) \<le> Max (set xs)"
    using pos by (simp add: pos_divide_le_eq mult.commute)
qed

lemma measureLatency_loop_success:
  fixes w :: "'z world_scheme"
  shows "measureLatency_loop sig i acc w = (Inr xs, w') \<Longrightarrow> i \<le> LATENCY_ATTEMPTS \<Longrightarrow>
    LATENCY_ATTEMPTS - i \<le> length (network w) \<and>
    xs = acc @ map reply_ms (take (LATENCY_ATTEMPTS - i) (network w)) \<and>
    trace w' = trace w @ replicate (LATENCY_ATTEMPTS - i) (Fetch GetLatency)"
proof (induction "LATENCY_ATTEMPTS - i" arbitrary: i acc w)
  case 0
  then have "i = LATENCY_ATTEMPTS" by simp
  with 0 show ?case by (simp add: measureLatency_loop.simps)
next
  case (Suc n)
  then have lt: "i < LATENCY_ATTEMPTS" by simp
  from Suc.prems(1) lt obtain res w1 u w2 where
    f: "fetch GetLatency sig w = (Inr res, w1)" and okr: "ok res"
    and a: "arrayBuffer res w1 = (Inr u, w2)"
    and rec: "measureLatency_loop sig (i + 1) (acc @ [now w2 - now w]) w2 = (Inr xs, w')"
    by (subst (asm) measureLatency_loop.simps)
       (auto simp: Let_def split: prod.splits sum.splits if_splits)
  from f obtain st h d b rest where
    nw: "network w = Reply st h d b # rest"
    and w1: "w1 = w\<lparr>trace := trace w @ [Fetch GetLatency], now := now w + h, network := rest\<rparr>"
    and res: "res = \<lparr>status = st, drain_ms = d, body = b, res_signal = sig\<rparr>"
    by (auto simp: fetch_def Let_def split: if_splits list.splits reply.splits option.splits)
  from a w1 res have w2: "w2 = w1\<lparr>now := now w + h + d\<rparr>"
    by (auto simp: arrayBuffer_def split: option.splits)
  have n: "n = LATENCY_ATTEMPTS - (i + 1)" using Suc.hyps(2) by simp
  have le: "i + 1 \<le> LATENCY_ATTEMPTS" using lt by simp
  note IH = Suc.hyps(1)[OF n rec le]
  have k: "LATENCY_ATTEMPTS - i = Suc (LATENCY_ATTEMPTS - (i + 1))" using lt by simp
  from IH show ?case unfolding k using nw w1 w2
    by (simp add: replicate_append_same)
qed


lemma measureLatency_success:
  fixes w :: "'z world_scheme"
  assumes "measureLatency sig w = (Inr m, w')"
  shows "LATENCY_ATTEMPTS \<le> length (network w)"
    and "samples m = map reply_ms (take LATENCY_ATTEMPTS (network w))"
    and "trace w' = trace w @ replicate LATENCY_ATTEMPTS (Fetch GetLatency)"
    and "average m = sum_list (samples m) / real (length (samples m))"
    and "min_ms m = Math_min (samples m)"
    and "max_ms m = Math_max (samples m)"
    and "jitter m = sum_list (map (\<lambda>x. \<bar>x - average m\<bar>) (samples m)) / real (length (samples m))"
proof -
  from assms obtain xs where
    l: "measureLatency_loop sig 0 [] w = (Inr xs, w')"
    and m: "m = \<lparr>average = foldl (\<lambda>acc value. acc + value) 0 xs / real (length xs),
                 min_ms = Math_min xs, max_ms = Math_max xs,
                 jitter = foldl (\<lambda>acc value. acc + \<bar>value - foldl (\<lambda>acc value. acc + value) 0 xs / real (length xs)\<bar>) 0 xs / real (length xs),
                 samples = xs\<rparr>"
    by (auto simp: measureLatency_def Let_def split: prod.splits sum.splits)
  from measureLatency_loop_success [OF l]
  show "LATENCY_ATTEMPTS \<le> length (network w)"
    and "trace w' = trace w @ replicate LATENCY_ATTEMPTS (Fetch GetLatency)"
    and "samples m = map reply_ms (take LATENCY_ATTEMPTS (network w))"
    using m by simp_all
  show "average m = sum_list (samples m) / real (length (samples m))"
    using m foldl_plus [of "\<lambda>x. x" 0 xs] by simp
  then show "jitter m = sum_list (map (\<lambda>x. \<bar>x - average m\<bar>) (samples m)) / real (length (samples m))"
    using m foldl_plus [of "\<lambda>x. \<bar>x - average m\<bar>" 0 xs] by simp
  show "min_ms m = Math_min (samples m)" "max_ms m = Math_max (samples m)"
    using m by simp_all
qed

text \<open>
  Claim C3. When \<open>measureLatency\<close> returns: it has made exactly 8 requests, the samples
  are the 8 durations in the order of the attempts, \<open>average\<close> is their arithmetic mean,
  \<open>min\<close> and \<open>max\<close> are their extrema, \<open>jitter\<close> is their mean absolute deviation
  from \<open>average\<close>, and so \<open>min \<le> average \<le> max\<close> and \<open>0 \<le> jitter\<close>.
\<close>

theorem measureLatency_metrics:
  fixes w :: "'z world_scheme"
  assumes "measureLatency sig w = (Inr m, w')"
  shows "trace w' = trace w @ replicate 8 (Fetch GetLatency) \<and>
         length (samples m) = 8 \<and>
         samples m = map reply_ms (take 8 (network w)) \<and>
         average m = sum_list (samples m) / 8 \<and>
         min_ms m = Min (set (samples m)) \<and>
         max_ms m = Max (set (samples m)) \<and>
         jitter m = sum_list (map (\<lambda>x. \<bar>x - average m\<bar>) (samples m)) / 8 \<and>
         min_ms m \<le> average m \<and> average m \<le> max_ms m \<and> 0 \<le> jitter m"
proof -
  note s = measureLatency_success [OF assms]
  have len: "length (samples m) = 8"
    using s(1) s(2) by (simp add: LATENCY_ATTEMPTS_def)
  then have ne: "samples m \<noteq> []" by auto
  have mn: "min_ms m = Min (set (samples m))" using s(5) ne by (simp add: Math_min_Min)
  have mx: "max_ms m = Max (set (samples m))" using s(6) ne by (simp add: Math_max_Max)
  have avg: "average m = sum_list (samples m) / 8" using s(4) len by simp
  have jit: "jitter m = sum_list (map (\<lambda>x. \<bar>x - average m\<bar>) (samples m)) / 8"
    using s(7) len by simp
  have tr: "trace w' = trace w @ replicate 8 (Fetch GetLatency)"
    using s(3) by (simp add: LATENCY_ATTEMPTS_def)
  have sm: "samples m = map reply_ms (take 8 (network w))"
    using s(2) by (simp add: LATENCY_ATTEMPTS_def)
  have lo: "min_ms m \<le> average m" using mean_bounds(1) [OF ne] mn s(4) by simp
  have hi: "average m \<le> max_ms m" using mean_bounds(2) [OF ne] mx s(4) by simp
  have "0 \<le> sum_list (map (\<lambda>x. \<bar>x - average m\<bar>) (samples m)) / 8"
    using sum_list_abs_nonneg [of "average m" "samples m"] by simp
  then have nn: "0 \<le> jitter m" by (simp only: jit)
  show ?thesis by (intro conjI tr len sm avg mn mx jit lo hi nn)
qed

lemma latency_run:
  "fst (measureLatency False latency_world) =
     Inr \<lparr>average = 20, min_ms = 10, max_ms = 32, jitter = 5,
          samples = [12, 22, 32, 18, 20, 20, 10, 26]\<rparr>"
  by (simp add: measureLatency_def measureLatency_loop.simps LATENCY_ATTEMPTS_def latency_world_def
      world0_def fetch_def arrayBuffer_def interrupt_def aborted_def ok_def Let_def)

theorem measureLatency_metrics_witness:
  "fst (measureLatency False latency_world) =
     Inr \<lparr>average = 20, min_ms = 10, max_ms = 32, jitter = 5,
          samples = [12, 22, 32, 18, 20, 20, 10, 26]\<rparr> \<and>
   trace (snd (measureLatency False latency_world)) = replicate 8 (Fetch GetLatency) \<and>
   (10::real) \<le> 20 \<and> (20::real) \<le> 32 \<and> (0::real) \<le> 5"
proof -
  let ?m = "\<lparr>average = 20, min_ms = 10, max_ms = 32, jitter = 5,
             samples = [12, 22, 32, 18, 20, 20, 10, 26]\<rparr>"
  have run: "measureLatency False latency_world = (Inr ?m, snd (measureLatency False latency_world))"
    using latency_run by (metis prod.collapse)
  from measureLatency_metrics [OF run] have
    "trace (snd (measureLatency False latency_world)) =
       trace latency_world @ replicate 8 (Fetch GetLatency)"
    and "min_ms ?m \<le> average ?m" and "average ?m \<le> max_ms ?m" and "0 \<le> jitter ?m"
    by blast+
  then show ?thesis using latency_run by (simp add: latency_world_def world0_def)
qed

subsection \<open>getIspInformation\<close>

text \<open>
  Claim C8. \<open>getIspInformation\<close> never throws. Whenever its \<^verbatim>\<open>try\<close> block fails, it
  returns \<^verbatim>\<open>undefined\<close> and logs the error with \<^verbatim>\<open>console.warn\<close>; an unreachable
  network, a connection failure, a non-success status and a body that is not JSON all
  make the block fail.
\<close>

theorem getIspInformation_never_throws:
  fixes w :: "'z world_scheme"
  shows "(\<exists>v. fst (getIspInformation w) = Inr v) \<and>
    (\<forall>e. fst (getIspInformation_try w) = Inl e \<longrightarrow>
       fst (getIspInformation w) = Inr JUndefined \<and>
       trace (snd (getIspInformation w)) = trace w @ [Fetch GetMeta, Warn e]) \<and>
    (network w = [] \<longrightarrow> fst (getIspInformation_try w) = Inl NetworkError) \<and>
    (\<forall>ms rest. network w = NetFail ms # rest \<longrightarrow>
       fst (getIspInformation_try w) = Inl NetworkError) \<and>
    (\<forall>st h d b rest. network w = Reply st h d b # rest \<and> \<not> (200 \<le> st \<and> st \<le> 299) \<longrightarrow>
       fst (getIspInformation_try w) = Inl (HttpError GetMeta st)) \<and>
    (\<forall>st h d rest. network w = Reply st h d None # rest \<and> 200 \<le> st \<and> st \<le> 299 \<longrightarrow>
       fst (getIspInformation_try w) = Inl SyntaxError)"
proof (intro conjI allI impI)
  show "\<exists>v. fst (getIspInformation w) = Inr v"
    by (simp add: getIspInformation_def split: prod.splits sum.splits)
next
  fix e assume "fst (getIspInformation_try w) = Inl e"
  then obtain w' where t: "getIspInformation_try w = (Inl e, w')"
    by (cases "getIspInformation_try w") simp
  then have "trace w' = trace w @ [Fetch GetMeta]"
    by (auto simp: getIspInformation_try_def fetch_def json_def arrayBuffer_def interrupt_def
        Let_def split: prod.splits sum.splits if_splits list.splits reply.splits option.splits)
  with t show "fst (getIspInformation w) = Inr JUndefined"
    and "trace (snd (getIspInformation w)) = trace w @ [Fetch GetMeta, Warn e]"
    by (simp_all add: getIspInformation_def)
next
  assume "network w = []"
  then show "fst (getIspInformation_try w) = Inl NetworkError"
    by (simp add: getIspInformation_try_def fetch_def)
next
  fix ms rest assume "network w = NetFail ms # rest"
  then show "fst (getIspInformation_try w) = Inl NetworkError"
    by (simp add: getIspInformation_try_def fetch_def interrupt_def split: option.splits)
next
  fix st h d b rest
  assume "network w = Reply st h d b # rest \<and> \<not> (200 \<le> st \<and> st \<le> 299)"
  then show "fst (getIspInformation_try w) = Inl (HttpError GetMeta st)"
    by (auto simp: getIspInformation_try_def fetch_def interrupt_def ok_def split: option.splits)
next
  fix st h d rest
  assume "network w = Reply st h d None # rest \<and> 200 \<le> st \<and> st \<le> 299"
  then show "fst (getIspInformation_try w) = Inl SyntaxError"
    by (auto simp: getIspInformation_try_def fetch_def interrupt_def ok_def json_def
        arrayBuffer_def split: option.splits)
qed

theorem getIspInformation_never_throws_witness:
  "network meta_world = Reply 503 30 1 None # [] \<and> \<not> (200 \<le> (503::nat) \<and> (503::nat) \<le> 299) \<and>
   fst (getIspInformation_try meta_world) = Inl (HttpError GetMeta 503) \<and>
   fst (getIspInformation meta_world) = Inr JUndefined \<and>
   trace (snd (getIspInformation meta_world)) = [Fetch GetMeta, Warn (HttpError GetMeta 503)]"
proof -
  have n: "network meta_world = Reply 503 30 1 None # []"
    by (simp add: meta_world_def world0_def)
  have s: "\<not> (200 \<le> (503::nat) \<and> (503::nat) \<le> 299)" by simp
  note t = getIspInformation_never_throws [of meta_world]
  from t n s have e: "fst (getIspInformation_try meta_world) = Inl (HttpError GetMeta 503)"
    by blast
  with t have "fst (getIspInformation meta_world) = Inr JUndefined"
    and "trace (snd (getIspInformation meta_world)) =
           trace meta_world @ [Fetch GetMeta, Warn (HttpError GetMeta 503)]"
    by blast+
  with n s e show ?thesis by (simp add: meta_world_def world0_def)
qed

lemma getIsp_example:
  "fst (getIspInformation (world0\<lparr>network := [Reply 200 30 1
      (Some (JObj [(''client'', JObj [(''asn'', JObj [(''name'', JStr '''')]), (''iata'', JStr ''CDG'')])]))]\<rparr>))
   = Inr (JStr ''CDG'')"
  by (simp add: getIspInformation_def getIspInformation_try_def fetch_def json_def arrayBuffer_def
      interrupt_def aborted_def ok_def js_or_def world0_def)

subsection \<open>Throughput samples and their average\<close>

lemma withRetry_loop_Inr:
  fixes w :: "'z world_scheme"
  shows "withRetry_loop fn r a le w = (Inr v, w') \<Longrightarrow> \<exists>w0. fn w0 = (Inr v, w')"
proof (induction "nat (r + 1 - a)" arbitrary: a le w)
  case 0
  then show ?case by (simp add: withRetry_loop.simps)
next
  case (Suc n)
  then have le: "a \<le> r" by simp
  show ?case
  proof (cases "fn w")
    case (Pair x w1)
    show ?thesis
    proof (cases x)
      case (Inr v')
      with Pair Suc.prems le show ?thesis by (auto simp: withRetry_loop.simps)
    next
      case (Inl e)
      with Pair Suc.prems le have ne: "a \<noteq> r" by (auto simp: withRetry_loop.simps)
      with Inl Pair Suc.prems le
      have rec: "withRetry_loop fn r (a + 1) (Some e) (sleep (300 * (a + 1)) w1) = (Inr v, w')"
        by (simp add: withRetry_loop.simps)
      have "n = nat (r + 1 - (a + 1))" using Suc.hyps(2) by simp
      from Suc.hyps(1) [OF this rec] show ?thesis .
    qed
  qed
qed

lemma withRetry_Inr:
  fixes w :: "'z world_scheme"
  shows "withRetry fn r w = (Inr v, w') \<Longrightarrow> \<exists>w0. fn w0 = (Inr v, w')"
  unfolding withRetry_def by (rule withRetry_loop_Inr)

lemma measureDownloadForSize_sample:
  fixes w :: "'z world_scheme"
  shows "measureDownloadForSize bytes sig w = (Inr s, w') \<Longrightarrow>
    sizeBytes s = bytes \<and> durationSeconds s = (now w' - now w) / 1000 \<and>
    mbps s = js_div (js_div (Num (real (sizeBytes s) * 8)) (Num (durationSeconds s)))
               (Num 1000000)"
  by (auto simp: measureDownloadForSize_def Let_def simp del: js_div.simps
      split: prod.splits sum.splits if_splits)

lemma measureUploadForSize_sample:
  fixes w :: "'z world_scheme"
  shows "measureUploadForSize bytes sig w = (Inr s, w') \<Longrightarrow>
    sizeBytes s = bytes \<and> durationSeconds s = (now w' - now w) / 1000 \<and>
    mbps s = js_div (js_div (Num (real (sizeBytes s) * 8)) (Num (durationSeconds s)))
               (Num 1000000)"
  by (auto simp: measureUploadForSize_def getRandomValues_def Let_def simp del: js_div.simps
      split: prod.splits sum.splits if_splits)

text \<open>The value of the formula for a positive size: finite unless the time is 0.\<close>

lemma throughput_value:
  "0 < b \<Longrightarrow>
   js_div (js_div (Num (real b * 8)) (Num d)) (Num 1000000) =
     (if d \<noteq> 0 then Num (real b * 8 / d / 1000000) else Infinity)"
  by simp

lemma instant_download:
  "fst (measureDownloadForSize 1048576 False instant_world) =
     Inr \<lparr>sizeBytes = 1048576, durationSeconds = 0, mbps = Infinity\<rparr>"
  by (simp add: measureDownloadForSize_def fetch_def arrayBuffer_def interrupt_def aborted_def
      ok_def instant_world_def world0_def Let_def)

text \<open>
  On a platform with the limit of the Web Cryptography standard both sizes of
  \<open>UPLOAD_SIZES\<close> are beyond the quota: the upload probe throws before it sends anything.
\<close>

lemma measureUploadForSize_quota:
  "quota w = 65536 \<Longrightarrow> b \<in> set UPLOAD_SIZES \<Longrightarrow>
   measureUploadForSize b sig w = (Inl QuotaExceededError, w)"
  by (auto simp: measureUploadForSize_def getRandomValues_def UPLOAD_SIZES_def)

lemma averageThroughput_mean: "averageThroughput xs = mean (map mbps xs)"
  by (simp add: averageThroughput_def mean_def Let_def foldl_map)

lemma foldl_js_add_Num: "foldl js_add (Num a) (map Num rs) = Num (a + sum_list rs)"
  by (induction rs arbitrary: a) (simp_all add: add.assoc)

lemma mean_Num: "rs \<noteq> [] \<Longrightarrow> mean (map Num rs) = Num (sum_list rs / real (length rs))"
  by (simp add: mean_def foldl_js_add_Num)

lemma mean_finite:
  assumes "xs \<noteq> []" and "\<forall>s\<in>set xs. mbps s = Num (f s)"
  shows "mean (map mbps xs) = Num (sum_list (map f xs) / real (length xs))"
proof -
  from assms(2) have eq: "map mbps xs = map Num (map f xs)" by simp
  from assms(1) have "map f xs \<noteq> []" by simp
  from mean_Num [OF this] show ?thesis by (simp only: eq length_map)
qed

lemma download_loop_success:
  fixes w :: "'z world_scheme"
  shows "download_loop opts i acc w = (Inr ds, w') \<Longrightarrow> i \<le> length DOWNLOAD_SIZES \<Longrightarrow>
    \<exists>new. ds = acc @ new \<and> map sizeBytes new = drop i DOWNLOAD_SIZES \<and>
      (\<forall>s\<in>set new. \<exists>(w0 :: 'z world_scheme) w1.
         measureDownloadForSize (sizeBytes s) (signal opts) w0 = (Inr s, w1))"
proof (induction "length DOWNLOAD_SIZES - i" arbitrary: i acc w)
  case 0
  then have "i = length DOWNLOAD_SIZES" by simp
  with 0 show ?case by (simp add: download_loop.simps)
next
  case (Suc n)
  then have lt: "i < length DOWNLOAD_SIZES" by simp
  from Suc.prems(1) lt obtain s w1 where
    p: "withRetry (measureDownloadForSize (DOWNLOAD_SIZES ! i) (signal opts)) (retries opts) w
          = (Inr s, w1)"
    and rec: "download_loop opts (i + 1) (acc @ [s])
        (progress opts (20 + (real (i + 1) / real (length DOWNLOAD_SIZES)) * 55) Download w1)
          = (Inr ds, w')"
    by (subst (asm) download_loop.simps)
       (auto simp: Let_def split: prod.splits sum.splits)
  from withRetry_Inr [OF p] obtain w0 where
    c: "measureDownloadForSize (DOWNLOAD_SIZES ! i) (signal opts) w0 = (Inr s, w1)" ..
  then have sz: "sizeBytes s = DOWNLOAD_SIZES ! i"
    using measureDownloadForSize_sample by blast
  have n: "n = length DOWNLOAD_SIZES - (i + 1)" using Suc.hyps(2) by simp
  have le: "i + 1 \<le> length DOWNLOAD_SIZES" using lt by simp
  from Suc.hyps(1) [OF n rec le] obtain new where
    new: "ds = (acc @ [s]) @ new" "map sizeBytes new = drop (i + 1) DOWNLOAD_SIZES"
      "\<forall>s\<in>set new. \<exists>(w0 :: 'z world_scheme) w1.
         measureDownloadForSize (sizeBytes s) (signal opts) w0 = (Inr s, w1)"
    by blast
  have d: "drop i DOWNLOAD_SIZES = DOWNLOAD_SIZES ! i # drop (i + 1) DOWNLOAD_SIZES"
    using lt by (simp add: Cons_nth_drop_Suc)
  show ?case
  proof (intro exI [of _ "s # new"] conjI)
    show "ds = acc @ s # new" using new(1) by simp
    show "map sizeBytes (s # new) = drop i DOWNLOAD_SIZES" using new(2) sz d by simp
    show "\<forall>s\<in>set (s # new). \<exists>(w0 :: 'z world_scheme) w1.
         measureDownloadForSize (sizeBytes s) (signal opts) w0 = (Inr s, w1)"
      using new(3) c sz by auto
  qed
qed

lemma upload_loop_success:
  fixes w :: "'z world_scheme"
  shows "upload_loop opts i acc w = (Inr us, w') \<Longrightarrow> i \<le> length UPLOAD_SIZES \<Longrightarrow>
    \<exists>new. us = acc @ new \<and> map sizeBytes new = drop i UPLOAD_SIZES \<and>
      (\<forall>s\<in>set new. \<exists>(w0 :: 'z world_scheme) w1.
         measureUploadForSize (sizeBytes s) (signal opts) w0 = (Inr s, w1))"
proof (induction "length UPLOAD_SIZES - i" arbitrary: i acc w)
  case 0
  then have "i = length UPLOAD_SIZES" by simp
  with 0 show ?case by (simp add: upload_loop.simps)
next
  case (Suc n)
  then have lt: "i < length UPLOAD_SIZES" by simp
  from Suc.prems(1) lt obtain s w1 where
    p: "withRetry (measureUploadForSize (UPLOAD_SIZES ! i) (signal opts)) (retries opts) w
          = (Inr s, w1)"
    and rec: "upload_loop opts (i + 1) (acc @ [s])
        (progress opts (80 + (real (i + 1) / real (length UPLOAD_SIZES)) * 18) Upload w1)
          = (Inr us, w')"
    by (subst (asm) upload_loop.simps)
       (auto simp: Let_def split: prod.splits sum.splits)
  from withRetry_Inr [OF p] obtain w0 where
    c: "measureUploadForSize (UPLOAD_SIZES ! i) (signal opts) w0 = (Inr s, w1)" ..
  then have sz: "sizeBytes s = UPLOAD_SIZES ! i"
    using measureUploadForSize_sample by blast
  have n: "n = length UPLOAD_SIZES - (i + 1)" using Suc.hyps(2) by simp
  have le: "i + 1 \<le> length UPLOAD_SIZES" using lt by simp
  from Suc.hyps(1) [OF n rec le] obtain new where
    new: "us = (acc @ [s]) @ new" "map sizeBytes new = drop (i + 1) UPLOAD_SIZES"
      "\<forall>s\<in>set new. \<exists>(w0 :: 'z world_scheme) w1.
         measureUploadForSize (sizeBytes s) (signal opts) w0 = (Inr s, w1)"
    by blast
  have d: "drop i UPLOAD_SIZES = UPLOAD_SIZES ! i # drop (i + 1) UPLOAD_SIZES"
    using lt by (simp add: Cons_nth_drop_Suc)
  show ?case
  proof (intro exI [of _ "s # new"] conjI)
    show "us = acc @ s # new" using new(1) by simp
    show "map sizeBytes (s # new) = drop i UPLOAD_SIZES" using new(2) sz d by simp
    show "\<forall>s\<in>set (s # new). \<exists>(w0 :: 'z world_scheme) w1.
         measureUploadForSize (sizeBytes s) (signal opts) w0 = (Inr s, w1)"
      using new(3) c sz by auto
  qed
qed

lemma runSpeedTest_Inr:
  fixes w :: "'z world_scheme"
  assumes "runSpeedTest opts w = (Inr res, w')"
  obtains lat and w1 :: "'z world_scheme" and ds and w2 :: "'z world_scheme"
    and up and w3 :: "'z world_scheme"
  where "withRetry (measureLatency (signal opts)) (retries opts) (progress opts 2 Latency w)
           = (Inr lat, w1)"
    and "download_loop opts 0 [] (progress opts 20 Latency w1) = (Inr ds, w2)"
    and "upload_stage opts w2 = (Inr up, w3)"
    and "res = \<lparr>downloadMbps = Some (averageThroughput ds), uploadMbps = up,
                 latency = Some lat, timestamp = epoch w' + now w'\<rparr>"
    and "w' = progress opts 100 Completed w3"
proof -
  obtain x1 and w1 :: "'z world_scheme" where
    a: "withRetry (measureLatency (signal opts)) (retries opts) (progress opts 2 Latency w)
          = (x1, w1)"
    by (cases "withRetry (measureLatency (signal opts)) (retries opts)
                 (progress opts 2 Latency w)")
  with assms obtain lat where x1: "x1 = Inr lat"
    by (cases x1) (simp_all add: runSpeedTest_def)
  obtain x2 and w2 :: "'z world_scheme" where
    b: "download_loop opts 0 [] (progress opts 20 Latency w1) = (x2, w2)"
    by (cases "download_loop opts 0 [] (progress opts 20 Latency w1)")
  with assms a x1 obtain ds where x2: "x2 = Inr ds"
    by (cases x2) (simp_all add: runSpeedTest_def)
  obtain x3 and w3 :: "'z world_scheme" where
    c: "upload_stage opts w2 = (x3, w3)"
    by (cases "upload_stage opts w2")
  with assms a x1 b x2 obtain up where x3: "x3 = Inr up"
    by (cases x3) (simp_all add: runSpeedTest_def)
  from assms a x1 b x2 c x3 have
    "res = \<lparr>downloadMbps = Some (averageThroughput ds), uploadMbps = up,
             latency = Some lat, timestamp = epoch w' + now w'\<rparr>"
    and "w' = progress opts 100 Completed w3"
    by (auto simp: runSpeedTest_def Let_def)
  with a x1 b x2 c x3 that show thesis by blast
qed

lemmas run_simps =
  runSpeedTest_def withRetry_def withRetry_loop.simps measureLatency_def
  measureLatency_loop.simps LATENCY_ATTEMPTS_def download_loop.simps DOWNLOAD_SIZES_def
  upload_stage_def upload_loop.simps UPLOAD_SIZES_def measureDownloadForSize_def
  measureUploadForSize_def getRandomValues_def averageThroughput_def progress_def
  fetch_def arrayBuffer_def interrupt_def aborted_def ok_def sleep_def Let_def

lemma example_run:
  "runSpeedTest run_options run_world =
     (Inr \<lparr>downloadMbps = Some (Num (917504 / 9375)), uploadMbps = None,
           latency = Some \<lparr>average = 20, min_ms = 20, max_ms = 20, jitter = 0,
                            samples = [20, 20, 20, 20, 20, 20, 20, 20]\<rparr>,
           timestamp = 1460\<rparr>,
      world0\<lparr>now := 1460, trace :=
        [Progress 2 Latency,
         Fetch GetLatency, Fetch GetLatency, Fetch GetLatency, Fetch GetLatency,
         Fetch GetLatency, Fetch GetLatency, Fetch GetLatency, Fetch GetLatency,
         Progress 20 Latency,
         Fetch (GetDownload 1048576), Progress (115 / 3) Download,
         Fetch (GetDownload 5242880), Progress (170 / 3) Download,
         Fetch (GetDownload 10485760), Progress 75 Download,
         Progress 100 Completed]\<rparr>)"
  by (simp add: run_simps run_world_def run_options_def world0_def)

text \<open>
  No operation changes the quota of the random source, and an upload probe returns only
  when its payload is within the quota.
\<close>

lemma quota_sleep: "quota (sleep ms w) = quota w"
  by (simp add: sleep_def)

lemma quota_fetch: "fetch req sig w = (x, w') \<Longrightarrow> quota w' = quota w"
  by (auto simp: fetch_def Let_def split: if_splits list.splits reply.splits option.splits)

lemma quota_arrayBuffer: "arrayBuffer res w = (x, w') \<Longrightarrow> quota w' = quota w"
  by (auto simp: arrayBuffer_def split: option.splits)

lemma quota_progress: "quota (progress opts v ph w) = quota w"
  by (simp add: progress_def)

lemma quota_measureLatency_loop:
  fixes w :: "'z world_scheme"
  shows "quota (snd (measureLatency_loop sig i acc w)) = quota w"
proof (induction "LATENCY_ATTEMPTS - i" arbitrary: i acc w)
  case 0
  then show ?case by (simp add: measureLatency_loop.simps)
next
  case (Suc n)
  then have lt: "i < LATENCY_ATTEMPTS" by simp
  obtain x and w1 :: "'z world_scheme" where f: "fetch GetLatency sig w = (x, w1)"
    by (cases "fetch GetLatency sig w")
  note q1 = quota_fetch [OF f]
  show ?case
  proof (cases x)
    case (Inl e)
    with f lt q1 show ?thesis by (simp add: measureLatency_loop.simps)
  next
    case (Inr res)
    show ?thesis
    proof (cases "ok res")
      case False
      with Inr f lt q1 show ?thesis by (simp add: measureLatency_loop.simps)
    next
      case True
      obtain y and w2 :: "'z world_scheme" where a: "arrayBuffer res w1 = (y, w2)"
        by (cases "arrayBuffer res w1")
      from quota_arrayBuffer [OF a] q1 have q2: "quota w2 = quota w" by simp
      show ?thesis
      proof (cases y)
        case (Inl e)
        with True Inr f a lt q2 show ?thesis by (simp add: measureLatency_loop.simps)
      next
        case (Inr u)
        have n: "n = LATENCY_ATTEMPTS - (i + 1)" using Suc.hyps(2) by simp
        from Suc.hyps(1) [OF n, of "acc @ [now w2 - now w]" w2] q2
        have "quota (snd (measureLatency_loop sig (i + 1) (acc @ [now w2 - now w]) w2)) =
                quota w" by simp
        with True \<open>x = Inr res\<close> Inr f a lt show ?thesis
          by (simp add: measureLatency_loop.simps Let_def)
      qed
    qed
  qed
qed

lemma quota_measureLatency: "quota (snd (measureLatency sig w)) = quota w"
  using quota_measureLatency_loop [of sig 0 "[]" w]
  by (cases "measureLatency_loop sig 0 [] w")
     (auto simp: measureLatency_def Let_def split: sum.splits)

lemma quota_measureDownloadForSize:
  fixes w :: "'z world_scheme"
  shows "quota (snd (measureDownloadForSize b sig w)) = quota w"
proof -
  obtain x and w1 :: "'z world_scheme" where f: "fetch (GetDownload b) sig w = (x, w1)"
    by (cases "fetch (GetDownload b) sig w")
  note q1 = quota_fetch [OF f]
  show ?thesis
  proof (cases x)
    case (Inl e)
    with f q1 show ?thesis by (simp add: measureDownloadForSize_def)
  next
    case (Inr res)
    obtain y and w2 :: "'z world_scheme" where a: "arrayBuffer res w1 = (y, w2)"
      by (cases "arrayBuffer res w1")
    from quota_arrayBuffer [OF a] q1 have "quota w2 = quota w" by simp
    with Inr f a q1 show ?thesis
      by (cases y) (simp_all add: measureDownloadForSize_def Let_def del: js_div.simps)
  qed
qed

lemma quota_measureUploadForSize:
  fixes w :: "'z world_scheme"
  shows "quota (snd (measureUploadForSize b sig w)) = quota w"
proof (cases "quota w < b")
  case True
  then show ?thesis by (simp add: measureUploadForSize_def getRandomValues_def)
next
  case False
  obtain x and w1 :: "'z world_scheme" where f: "fetch (PostUpload b) sig w = (x, w1)"
    by (cases "fetch (PostUpload b) sig w")
  note q1 = quota_fetch [OF f]
  show ?thesis
  proof (cases x)
    case (Inl e)
    with False f q1 show ?thesis by (simp add: measureUploadForSize_def getRandomValues_def)
  next
    case (Inr res)
    obtain y and w2 :: "'z world_scheme" where a: "arrayBuffer res w1 = (y, w2)"
      by (cases "arrayBuffer res w1")
    from quota_arrayBuffer [OF a] q1 have "quota w2 = quota w" by simp
    with False Inr f a q1 show ?thesis
      by (cases y)
         (simp_all add: measureUploadForSize_def getRandomValues_def Let_def del: js_div.simps)
  qed
qed

lemma measureUploadForSize_within_quota:
  "measureUploadForSize b sig w = (Inr s, w') \<Longrightarrow> b \<le> quota w"
  by (cases "quota w < b") (simp_all add: measureUploadForSize_def getRandomValues_def)

lemma withRetry_loop_quota:
  fixes w :: "'z world_scheme"
  assumes fn: "\<And>w :: 'z world_scheme. quota (snd (fn w)) = quota w"
  shows "quota (snd (withRetry_loop fn r a le w)) = quota w \<and>
    (\<forall>v. fst (withRetry_loop fn r a le w) = Inr v \<longrightarrow>
       (\<exists>w0. fn w0 = (Inr v, snd (withRetry_loop fn r a le w)) \<and> quota w0 = quota w))"
proof (induction "nat (r + 1 - a)" arbitrary: a le w)
  case 0
  then show ?case by (simp add: withRetry_loop.simps)
next
  case (Suc n)
  then have le: "a \<le> r" by simp
  obtain x and w1 :: "'z world_scheme" where f: "fn w = (x, w1)" by (cases "fn w")
  with fn [of w] have q1: "quota w1 = quota w" by simp
  show ?case
  proof (cases x)
    case (Inr v)
    with f le have "withRetry_loop fn r a le w = (Inr v, w1)"
      by (simp add: withRetry_loop.simps)
    with f Inr q1 show ?thesis by auto
  next
    case (Inl e)
    show ?thesis
    proof (cases "a = r")
      case True
      with Inl f le q1 show ?thesis by (simp add: withRetry_loop.simps)
    next
      case False
      let ?w2 = "sleep (300 * (a + 1)) w1"
      have step: "withRetry_loop fn r a le w = withRetry_loop fn r (a + 1) (Some e) ?w2"
        using False Inl f le by (simp add: withRetry_loop.simps)
      have q2: "quota ?w2 = quota w" using q1 by (simp add: quota_sleep)
      have n: "n = nat (r + 1 - (a + 1))" using Suc.hyps(2) by simp
      from Suc.hyps(1) [OF n, of "Some e" ?w2] show ?thesis unfolding step q2 .
    qed
  qed
qed

lemma withRetry_quota:
  fixes w :: "'z world_scheme"
  assumes "\<And>w :: 'z world_scheme. quota (snd (fn w)) = quota w"
  shows "quota (snd (withRetry fn r w)) = quota w"
    and "withRetry fn r w = (Inr v, w') \<Longrightarrow> \<exists>w0. fn w0 = (Inr v, w') \<and> quota w0 = quota w"
  using withRetry_loop_quota [of fn r 0 None w, OF assms] by (auto simp: withRetry_def)

lemma quota_download_loop:
  fixes w :: "'z world_scheme"
  shows "quota (snd (download_loop opts i acc w)) = quota w"
proof (induction "length DOWNLOAD_SIZES - i" arbitrary: i acc w)
  case 0
  then show ?case by (simp add: download_loop.simps)
next
  case (Suc n)
  then have lt: "i < length DOWNLOAD_SIZES" by simp
  let ?fn = "measureDownloadForSize (DOWNLOAD_SIZES ! i) (signal opts) :: 'z world_scheme \<Rightarrow> _"
  obtain x and w1 :: "'z world_scheme" where f: "withRetry ?fn (retries opts) w = (x, w1)"
    by (cases "withRetry ?fn (retries opts) w")
  have "quota (snd (withRetry ?fn (retries opts) w)) = quota w"
    by (rule withRetry_quota) (rule quota_measureDownloadForSize)
  with f have q1: "quota w1 = quota w" by simp
  show ?case
  proof (cases x)
    case (Inl e)
    with f lt q1 show ?thesis by (simp add: download_loop.simps)
  next
    case (Inr sample)
    let ?w2 = "progress opts (20 + (real (i + 1) / real (length DOWNLOAD_SIZES)) * 55) Download w1"
    have q2: "quota ?w2 = quota w" using q1 by (simp add: quota_progress)
    have n: "n = length DOWNLOAD_SIZES - (i + 1)" using Suc.hyps(2) by simp
    from Suc.hyps(1) [OF n, of "acc @ [sample]" ?w2] q2
    have "quota (snd (download_loop opts (i + 1) (acc @ [sample]) ?w2)) = quota w" by simp
    with Inr f lt show ?thesis by (simp add: download_loop.simps Let_def)
  qed
qed

lemma upload_loop_within_quota:
  fixes w :: "'z world_scheme"
  shows "upload_loop opts i acc w = (Inr us, w') \<Longrightarrow>
    \<forall>b\<in>set (drop i UPLOAD_SIZES). b \<le> quota w"
proof (induction "length UPLOAD_SIZES - i" arbitrary: i acc w)
  case 0
  then show ?case by simp
next
  case (Suc n)
  then have lt: "i < length UPLOAD_SIZES" by simp
  let ?fn = "measureUploadForSize (UPLOAD_SIZES ! i) (signal opts) :: 'z world_scheme \<Rightarrow> _"
  from Suc.prems(1) lt obtain s and w1 :: "'z world_scheme" where
    p: "withRetry ?fn (retries opts) w = (Inr s, w1)"
    and rec: "upload_loop opts (i + 1) (acc @ [s])
        (progress opts (80 + (real (i + 1) / real (length UPLOAD_SIZES)) * 18) Upload w1)
          = (Inr us, w')"
    by (subst (asm) upload_loop.simps)
       (auto simp: Let_def split: prod.splits sum.splits)
  from withRetry_quota(2) [of ?fn, OF quota_measureUploadForSize p] obtain w0 where
    c: "?fn w0 = (Inr s, w1)" and q0: "quota w0 = quota w" by blast
  from measureUploadForSize_within_quota [OF c] q0 have here: "UPLOAD_SIZES ! i \<le> quota w"
    by simp
  from withRetry_quota(1) [of ?fn "retries opts" w, OF quota_measureUploadForSize] p
  have q1: "quota w1 = quota w" by simp
  have n: "n = length UPLOAD_SIZES - (i + 1)" using Suc.hyps(2) by simp
  from Suc.hyps(1) [OF n rec] q1
  have rest: "\<forall>b\<in>set (drop (i + 1) UPLOAD_SIZES). b \<le> quota w"
    by (simp add: quota_progress)
  have d: "drop i UPLOAD_SIZES = UPLOAD_SIZES ! i # drop (i + 1) UPLOAD_SIZES"
    using lt by (simp add: Cons_nth_drop_Suc)
  from here rest show ?case unfolding d by simp
qed

lemma download_samples_facts:
  fixes ds :: "ThroughputSample list"
  assumes sz: "map sizeBytes ds = DOWNLOAD_SIZES"
    and pr: "\<forall>s\<in>set ds. \<exists>(v0 :: 'z world_scheme) v1.
               measureDownloadForSize (sizeBytes s) sig v0 = (Inr s, v1)"
  shows "\<forall>s\<in>set ds.
    (\<exists>(v0 :: 'z world_scheme) v1.
        measureDownloadForSize (sizeBytes s) sig v0 = (Inr s, v1) \<and>
        durationSeconds s = (now v1 - now v0) / 1000) \<and>
    mbps s = js_div (js_div (Num (real (sizeBytes s) * 8)) (Num (durationSeconds s)))
               (Num 1000000) \<and>
    mbps s = (if durationSeconds s \<noteq> 0
              then Num (real (sizeBytes s) * 8 / durationSeconds s / 1000000)
              else Infinity)"
proof
  fix s assume s: "s \<in> set ds"
  then have "sizeBytes s \<in> set DOWNLOAD_SIZES" using sz by (metis image_eqI set_map)
  then have pos: "0 < sizeBytes s" by (auto simp: DOWNLOAD_SIZES_def)
  from pr s obtain v0 :: "'z world_scheme" and v1 where
    c: "measureDownloadForSize (sizeBytes s) sig v0 = (Inr s, v1)" by blast
  from measureDownloadForSize_sample [OF c] have
    d: "durationSeconds s = (now v1 - now v0) / 1000"
    and m: "mbps s = js_div (js_div (Num (real (sizeBytes s) * 8)) (Num (durationSeconds s)))
               (Num 1000000)"
    by simp_all
  from m throughput_value [OF pos, of "durationSeconds s"] have
    v: "mbps s = (if durationSeconds s \<noteq> 0
              then Num (real (sizeBytes s) * 8 / durationSeconds s / 1000000)
              else Infinity)"
    by (simp only:)
  from c d have "\<exists>(v0 :: 'z world_scheme) v1.
        measureDownloadForSize (sizeBytes s) sig v0 = (Inr s, v1) \<and>
        durationSeconds s = (now v1 - now v0) / 1000" by blast
  with m v show "(\<exists>(v0 :: 'z world_scheme) v1.
        measureDownloadForSize (sizeBytes s) sig v0 = (Inr s, v1) \<and>
        durationSeconds s = (now v1 - now v0) / 1000) \<and>
    mbps s = js_div (js_div (Num (real (sizeBytes s) * 8)) (Num (durationSeconds s)))
               (Num 1000000) \<and>
    mbps s = (if durationSeconds s \<noteq> 0
              then Num (real (sizeBytes s) * 8 / durationSeconds s / 1000000)
              else Infinity)"
    by (intro conjI)
qed

lemma upload_samples_facts:
  fixes ds :: "ThroughputSample list"
  assumes sz: "map sizeBytes ds = UPLOAD_SIZES"
    and pr: "\<forall>s\<in>set ds. \<exists>(v0 :: 'z world_scheme) v1.
               measureUploadForSize (sizeBytes s) sig v0 = (Inr s, v1)"
  shows "\<forall>s\<in>set ds.
    (\<exists>(v0 :: 'z world_scheme) v1.
        measureUploadForSize (sizeBytes s) sig v0 = (Inr s, v1) \<and>
        durationSeconds s = (now v1 - now v0) / 1000) \<and>
    mbps s = js_div (js_div (Num (real (sizeBytes s) * 8)) (Num (durationSeconds s)))
               (Num 1000000) \<and>
    mbps s = (if durationSeconds s \<noteq> 0
              then Num (real (sizeBytes s) * 8 / durationSeconds s / 1000000)
              else Infinity)"
proof
  fix s assume s: "s \<in> set ds"
  then have "sizeBytes s \<in> set UPLOAD_SIZES" using sz by (metis image_eqI set_map)
  then have pos: "0 < sizeBytes s" by (auto simp: UPLOAD_SIZES_def)
  from pr s obtain v0 :: "'z world_scheme" and v1 where
    c: "measureUploadForSize (sizeBytes s) sig v0 = (Inr s, v1)" by blast
  from measureUploadForSize_sample [OF c] have
    d: "durationSeconds s = (now v1 - now v0) / 1000"
    and m: "mbps s = js_div (js_div (Num (real (sizeBytes s) * 8)) (Num (durationSeconds s)))
               (Num 1000000)"
    by simp_all
  from m throughput_value [OF pos, of "durationSeconds s"] have
    v: "mbps s = (if durationSeconds s \<noteq> 0
              then Num (real (sizeBytes s) * 8 / durationSeconds s / 1000000)
              else Infinity)"
    by (simp only:)
  from c d have "\<exists>(v0 :: 'z world_scheme) v1.
        measureUploadForSize (sizeBytes s) sig v0 = (Inr s, v1) \<and>
        durationSeconds s = (now v1 - now v0) / 1000" by blast
  with m v show "(\<exists>(v0 :: 'z world_scheme) v1.
        measureUploadForSize (sizeBytes s) sig v0 = (Inr s, v1) \<and>
        durationSeconds s = (now v1 - now v0) / 1000) \<and>
    mbps s = js_div (js_div (Num (real (sizeBytes s) * 8)) (Num (durationSeconds s)))
               (Num 1000000) \<and>
    mbps s = (if durationSeconds s \<noteq> 0
              then Num (real (sizeBytes s) * 8 / durationSeconds s / 1000000)
              else Infinity)"
    by (intro conjI)
qed

lemma upload_example_run:
  "runSpeedTest upload_options upload_world =
     (Inr \<lparr>downloadMbps = Some (Num (917504 / 9375)),
           uploadMbps = Some (Num (131072 / 3125)),
           latency = Some \<lparr>average = 20, min_ms = 20, max_ms = 20, jitter = 0,
                            samples = [20, 20, 20, 20, 20, 20, 20, 20]\<rparr>,
           timestamp = 2060\<rparr>,
      world0\<lparr>quota := 2097152, now := 2060, trace :=
        [Progress 2 Latency,
         Fetch GetLatency, Fetch GetLatency, Fetch GetLatency, Fetch GetLatency,
         Fetch GetLatency, Fetch GetLatency, Fetch GetLatency, Fetch GetLatency,
         Progress 20 Latency,
         Fetch (GetDownload 1048576), Progress (115 / 3) Download,
         Fetch (GetDownload 5242880), Progress (170 / 3) Download,
         Fetch (GetDownload 10485760), Progress 75 Download,
         Fetch (PostUpload 1048576), Progress 89 Upload,
         Fetch (PostUpload 2097152), Progress 98 Upload,
         Progress 100 Completed]\<rparr>)"
  by (simp add: run_simps upload_world_def upload_options_def world0_def)

text \<open>
  Claim C4. In a run that returns, the download stage has returned one sample per size of
  \<open>DOWNLOAD_SIZES\<close>. Each of them is what a download probe returned, its
  \<open>durationSeconds\<close> is the time that probe took, and its \<open>mbps\<close> is
  \<open>sizeBytes * 8 / durationSeconds / 1000000\<close> in the arithmetic of JavaScript numbers:
  that quotient of reals when the time is not 0, \<^verbatim>\<open>Infinity\<close> when it is.
  \<open>downloadMbps\<close> is the unweighted arithmetic mean of the \<open>mbps\<close> of these
  samples, which is the mean of the real quotients when no time is 0. When the upload is
  enabled the same holds of \<open>uploadMbps\<close>, the samples of the upload stage and
  \<open>UPLOAD_SIZES\<close>; such a run returns only on a platform whose random source fills every
  size of \<open>UPLOAD_SIZES\<close> in one call. The average of no sample is 0.
\<close>

theorem throughput_samples_and_average:
  fixes w :: "'z world_scheme"
  assumes "runSpeedTest opts w = (Inr res, w')"
  shows "averageThroughput [] = Num 0 \<and>
   (\<exists>lat (w1 :: 'z world_scheme) ds (w2 :: 'z world_scheme).
      withRetry (measureLatency (signal opts)) (retries opts) (progress opts 2 Latency w) =
        (Inr lat, w1) \<and>
      download_loop opts 0 [] (progress opts 20 Latency w1) = (Inr ds, w2) \<and>
      map sizeBytes ds = DOWNLOAD_SIZES \<and>
      (\<forall>s\<in>set ds.
           (\<exists>(v0 :: 'z world_scheme) v1.
               measureDownloadForSize (sizeBytes s) (signal opts) v0 = (Inr s, v1) \<and>
               durationSeconds s = (now v1 - now v0) / 1000) \<and>
           mbps s = js_div (js_div (Num (real (sizeBytes s) * 8)) (Num (durationSeconds s)))
                      (Num 1000000) \<and>
           mbps s = (if durationSeconds s \<noteq> 0
                     then Num (real (sizeBytes s) * 8 / durationSeconds s / 1000000)
                     else Infinity)) \<and>
      downloadMbps res = Some (mean (map mbps ds)) \<and>
      ((\<forall>s\<in>set ds. durationSeconds s \<noteq> 0) \<longrightarrow>
         downloadMbps res =
           Some (Num (sum_list (map (\<lambda>s. real (sizeBytes s) * 8 / durationSeconds s / 1000000) ds) /
                      real (length ds)))) \<and>
      (if enableUpload opts then
        (\<exists>us (w3 :: 'z world_scheme).
           upload_loop opts 0 [] w2 = (Inr us, w3) \<and>
           map sizeBytes us = UPLOAD_SIZES \<and>
           (\<forall>b\<in>set UPLOAD_SIZES. b \<le> quota w) \<and>
           (\<forall>s\<in>set us.
               (\<exists>(v0 :: 'z world_scheme) v1.
                   measureUploadForSize (sizeBytes s) (signal opts) v0 = (Inr s, v1) \<and>
                   durationSeconds s = (now v1 - now v0) / 1000) \<and>
               mbps s = js_div (js_div (Num (real (sizeBytes s) * 8)) (Num (durationSeconds s)))
                          (Num 1000000) \<and>
               mbps s = (if durationSeconds s \<noteq> 0
                         then Num (real (sizeBytes s) * 8 / durationSeconds s / 1000000)
                         else Infinity)) \<and>
           uploadMbps res = Some (mean (map mbps us)) \<and>
           ((\<forall>s\<in>set us. durationSeconds s \<noteq> 0) \<longrightarrow>
              uploadMbps res =
                Some (Num (sum_list (map (\<lambda>s. real (sizeBytes s) * 8 / durationSeconds s / 1000000) us) /
                           real (length us)))))
      else uploadMbps res = None))"
proof -
  from assms obtain lat and w1 :: "'z world_scheme" and ds and w2 :: "'z world_scheme"
    and up and w3 :: "'z world_scheme" where
    l: "withRetry (measureLatency (signal opts)) (retries opts) (progress opts 2 Latency w) =
        (Inr lat, w1)"
    and dl: "download_loop opts 0 [] (progress opts 20 Latency w1) = (Inr ds, w2)"
    and us: "upload_stage opts w2 = (Inr up, w3)"
    and res: "downloadMbps res = Some (averageThroughput ds)" "uploadMbps res = up"
    by (rule runSpeedTest_Inr) simp
  have e: "averageThroughput [] = Num 0" by (simp add: averageThroughput_def)
  from download_loop_success [OF dl] have
    sz: "map sizeBytes ds = DOWNLOAD_SIZES"
    and pr: "\<forall>s\<in>set ds. \<exists>(v0 :: 'z world_scheme) v1.
         measureDownloadForSize (sizeBytes s) (signal opts) v0 = (Inr s, v1)"
    by auto
  note fd = download_samples_facts [OF sz pr]
  from sz have ne: "ds \<noteq> []" by (auto simp: DOWNLOAD_SIZES_def)
  have m: "downloadMbps res = Some (mean (map mbps ds))"
    using res(1) by (simp add: averageThroughput_mean)
  have fin: "(\<forall>s\<in>set ds. durationSeconds s \<noteq> 0) \<longrightarrow>
       downloadMbps res =
         Some (Num (sum_list (map (\<lambda>s. real (sizeBytes s) * 8 / durationSeconds s / 1000000) ds) /
                    real (length ds)))"
  proof
    assume "\<forall>s\<in>set ds. durationSeconds s \<noteq> 0"
    with fd have "\<forall>s\<in>set ds.
      mbps s = Num (real (sizeBytes s) * 8 / durationSeconds s / 1000000)" by simp
    from mean_finite [OF ne this] m show "downloadMbps res =
     Some (Num (sum_list (map (\<lambda>s. real (sizeBytes s) * 8 / durationSeconds s / 1000000) ds) /
                real (length ds)))" by simp
  qed
  have u: "(if enableUpload opts then
        (\<exists>us (w3 :: 'z world_scheme).
           upload_loop opts 0 [] w2 = (Inr us, w3) \<and>
           map sizeBytes us = UPLOAD_SIZES \<and>
           (\<forall>b\<in>set UPLOAD_SIZES. b \<le> quota w) \<and>
           (\<forall>s\<in>set us.
               (\<exists>(v0 :: 'z world_scheme) v1.
                   measureUploadForSize (sizeBytes s) (signal opts) v0 = (Inr s, v1) \<and>
                   durationSeconds s = (now v1 - now v0) / 1000) \<and>
               mbps s = js_div (js_div (Num (real (sizeBytes s) * 8)) (Num (durationSeconds s)))
                          (Num 1000000) \<and>
               mbps s = (if durationSeconds s \<noteq> 0
                         then Num (real (sizeBytes s) * 8 / durationSeconds s / 1000000)
                         else Infinity)) \<and>
           uploadMbps res = Some (mean (map mbps us)) \<and>
           ((\<forall>s\<in>set us. durationSeconds s \<noteq> 0) \<longrightarrow>
              uploadMbps res =
                Some (Num (sum_list (map (\<lambda>s. real (sizeBytes s) * 8 / durationSeconds s / 1000000) us) /
                           real (length us)))))
      else uploadMbps res = None)"
  proof (cases "enableUpload opts")
    case False
    with us res(2) show ?thesis by (simp add: upload_stage_def)
  next
    case True
    with us obtain ups where
      ul: "upload_loop opts 0 [] w2 = (Inr ups, w3)" and up: "up = Some (averageThroughput ups)"
      by (auto simp: upload_stage_def split: prod.splits sum.splits)
    from upload_loop_success [OF ul] have
      usz: "map sizeBytes ups = UPLOAD_SIZES"
      and upr: "\<forall>s\<in>set ups. \<exists>(v0 :: 'z world_scheme) v1.
         measureUploadForSize (sizeBytes s) (signal opts) v0 = (Inr s, v1)"
      by auto
    note fu = upload_samples_facts [OF usz upr]
    have "quota w1 = quota (progress opts 2 Latency w)"
      using withRetry_quota(1) [of "measureLatency (signal opts)" "retries opts"
          "progress opts 2 Latency w", OF quota_measureLatency] l
      by simp
    moreover have "quota w2 = quota (progress opts 20 Latency w1)"
      using quota_download_loop [of opts 0 "[]" "progress opts 20 Latency w1"] dl by simp
    ultimately have "quota w2 = quota w" by (simp add: quota_progress)
    with upload_loop_within_quota [OF ul]
    have uq: "\<forall>b\<in>set UPLOAD_SIZES. b \<le> quota w" by simp
    from usz have une: "ups \<noteq> []" by (auto simp: UPLOAD_SIZES_def)
    have um: "uploadMbps res = Some (mean (map mbps ups))"
      using res(2) up by (simp add: averageThroughput_mean)
    have ufin: "(\<forall>s\<in>set ups. durationSeconds s \<noteq> 0) \<longrightarrow>
         uploadMbps res =
           Some (Num (sum_list (map (\<lambda>s. real (sizeBytes s) * 8 / durationSeconds s / 1000000) ups) /
                      real (length ups)))"
    proof
      assume "\<forall>s\<in>set ups. durationSeconds s \<noteq> 0"
      with fu have "\<forall>s\<in>set ups.
        mbps s = Num (real (sizeBytes s) * 8 / durationSeconds s / 1000000)" by simp
      from mean_finite [OF une this] um show "uploadMbps res =
     Some (Num (sum_list (map (\<lambda>s. real (sizeBytes s) * 8 / durationSeconds s / 1000000) ups) /
                real (length ups)))" by simp
    qed
    show ?thesis
      by (simp only: True if_True) (intro exI [of _ ups] exI [of _ w3] conjI ul usz uq fu um ufin)
  qed
  show ?thesis
    by (intro conjI e exI [of _ lat] exI [of _ w1] exI [of _ ds] exI [of _ w2] l dl sz fd m fin u)
qed

theorem throughput_samples_and_average_witness:
  "fst (runSpeedTest run_options run_world) =
     Inr \<lparr>downloadMbps = Some (Num (917504 / 9375)), uploadMbps = None,
           latency = Some \<lparr>average = 20, min_ms = 20, max_ms = 20, jitter = 0,
                            samples = [20, 20, 20, 20, 20, 20, 20, 20]\<rparr>,
           timestamp = 1460\<rparr> \<and>
   (\<exists>ds :: ThroughputSample list. map sizeBytes ds = DOWNLOAD_SIZES \<and>
      (\<forall>s\<in>set ds. mbps s =
         js_div (js_div (Num (real (sizeBytes s) * 8)) (Num (durationSeconds s)))
           (Num 1000000)) \<and>
      Some (Num (917504 / 9375)) = Some (mean (map mbps ds))) \<and>
   fst (runSpeedTest upload_options upload_world) =
     Inr \<lparr>downloadMbps = Some (Num (917504 / 9375)),
           uploadMbps = Some (Num (131072 / 3125)),
           latency = Some \<lparr>average = 20, min_ms = 20, max_ms = 20, jitter = 0,
                            samples = [20, 20, 20, 20, 20, 20, 20, 20]\<rparr>,
           timestamp = 2060\<rparr> \<and>
   enableUpload upload_options \<and>
   (\<exists>us :: ThroughputSample list. map sizeBytes us = UPLOAD_SIZES \<and>
      (\<forall>s\<in>set us. mbps s =
         js_div (js_div (Num (real (sizeBytes s) * 8)) (Num (durationSeconds s)))
           (Num 1000000)) \<and>
      Some (Num (131072 / 3125)) = Some (mean (map mbps us)))"
proof -
  let ?A = "\<lparr>downloadMbps = Some (Num (917504 / 9375)), uploadMbps = None,
           latency = Some \<lparr>average = 20, min_ms = 20, max_ms = 20, jitter = 0,
                            samples = [20, 20, 20, 20, 20, 20, 20, 20]\<rparr>,
           timestamp = 1460\<rparr>"
  let ?B = "\<lparr>downloadMbps = Some (Num (917504 / 9375)),
           uploadMbps = Some (Num (131072 / 3125)),
           latency = Some \<lparr>average = 20, min_ms = 20, max_ms = 20, jitter = 0,
                            samples = [20, 20, 20, 20, 20, 20, 20, 20]\<rparr>,
           timestamp = 2060\<rparr>"
  have f1: "fst (runSpeedTest run_options run_world) = Inr ?A"
    by (simp only: example_run fst_conv)
  have f2: "fst (runSpeedTest upload_options upload_world) = Inr ?B"
    by (simp only: upload_example_run fst_conv)
  have en: "enableUpload upload_options" by (simp add: upload_options_def)
  from throughput_samples_and_average [OF example_run, THEN conjunct2]
  obtain ds :: "ThroughputSample list" where
    "map sizeBytes ds = DOWNLOAD_SIZES"
    and "\<forall>s\<in>set ds. mbps s =
         js_div (js_div (Num (real (sizeBytes s) * 8)) (Num (durationSeconds s)))
           (Num 1000000)"
    and "downloadMbps ?A = Some (mean (map mbps ds))"
    by blast
  then have d: "\<exists>ds :: ThroughputSample list. map sizeBytes ds = DOWNLOAD_SIZES \<and>
      (\<forall>s\<in>set ds. mbps s =
         js_div (js_div (Num (real (sizeBytes s) * 8)) (Num (durationSeconds s)))
           (Num 1000000)) \<and>
      Some (Num (917504 / 9375)) = Some (mean (map mbps ds))"
    by (intro exI [of _ ds]) simp
  from throughput_samples_and_average [OF upload_example_run, THEN conjunct2] en
  obtain us :: "ThroughputSample list" where
    "map sizeBytes us = UPLOAD_SIZES"
    and "\<forall>s\<in>set us. mbps s =
         js_div (js_div (Num (real (sizeBytes s) * 8)) (Num (durationSeconds s)))
           (Num 1000000)"
    and "uploadMbps ?B = Some (mean (map mbps us))"
    by (simp only: if_True) blast
  then have u: "\<exists>us :: ThroughputSample list. map sizeBytes us = UPLOAD_SIZES \<and>
      (\<forall>s\<in>set us. mbps s =
         js_div (js_div (Num (real (sizeBytes s) * 8)) (Num (durationSeconds s)))
           (Num 1000000)) \<and>
      Some (Num (131072 / 3125)) = Some (mean (map mbps us))"
    by (intro exI [of _ us]) simp
  from f1 d f2 en u show ?thesis by (intro conjI)
qed

subsection \<open>The trace of a run\<close>

lemma adds_refl: "adds P w w"
  by (simp add: adds_def)

lemma adds_same_trace: "trace w' = trace w \<Longrightarrow> adds P w w'"
  by (simp add: adds_def)

lemma adds_one: "trace w' = trace w @ [e] \<Longrightarrow> P e \<Longrightarrow> adds P w w'"
  by (simp add: adds_def)

lemma adds_trans: "adds P w w1 \<Longrightarrow> adds P w1 w2 \<Longrightarrow> adds P w w2"
  unfolding adds_def
proof (elim exE conjE)
  fix evs evs'
  assume "trace w1 = trace w @ evs" "\<forall>e\<in>set evs. P e"
    "trace w2 = trace w1 @ evs'" "\<forall>e\<in>set evs'. P e"
  then have "trace w2 = trace w @ (evs @ evs') \<and> (\<forall>e\<in>set (evs @ evs'). P e)" by auto
  then show "\<exists>evs. trace w2 = trace w @ evs \<and> (\<forall>e\<in>set evs. P e)" by blast
qed

lemma fetch_trace: "trace (snd (fetch req sig w)) = trace w @ [Fetch req]"
  by (simp add: fetch_def Let_def split: list.splits reply.splits option.splits)

lemma arrayBuffer_trace: "trace (snd (arrayBuffer res w)) = trace w"
  by (simp add: arrayBuffer_def split: option.splits)

lemma fetch_adds: "fetch req sig w = (x, w') \<Longrightarrow> P (Fetch req) \<Longrightarrow> adds P w w'"
  using fetch_trace [of req sig w] by (auto intro: adds_one)

lemma arrayBuffer_adds: "arrayBuffer res w = (x, w') \<Longrightarrow> adds P w w'"
  using arrayBuffer_trace [of res w] by (auto intro: adds_same_trace)

lemma sleep_adds: "P (Sleep ms) \<Longrightarrow> adds P w (sleep ms w)"
  by (rule adds_one [of _ _ "Sleep ms"]) (simp_all add: sleep_def)

lemma progress_adds:
  "(onProgress opts \<Longrightarrow> P (Progress (min 100 (max 0 v)) ph)) \<Longrightarrow> adds P w (progress opts v ph w)"
  by (cases "onProgress opts") (auto simp: progress_def adds_def)

lemma measureLatency_loop_adds:
  fixes w :: "'z world_scheme"
  assumes P: "P (Fetch GetLatency)"
  shows "adds P w (snd (measureLatency_loop sig i acc w))"
proof (induction "LATENCY_ATTEMPTS - i" arbitrary: i acc w)
  case 0
  then show ?case by (simp add: measureLatency_loop.simps adds_refl)
next
  case (Suc n)
  then have lt: "i < LATENCY_ATTEMPTS" by simp
  obtain x and w1 :: "'z world_scheme" where f: "fetch GetLatency sig w = (x, w1)"
    by (cases "fetch GetLatency sig w")
  note a1 = fetch_adds [where P = P, OF f P]
  show ?case
  proof (cases x)
    case (Inl e)
    with f lt a1 show ?thesis by (simp add: measureLatency_loop.simps)
  next
    case (Inr res)
    show ?thesis
    proof (cases "ok res")
      case False
      with Inr f lt a1 show ?thesis by (simp add: measureLatency_loop.simps)
    next
      case True
      obtain y and w2 :: "'z world_scheme" where a: "arrayBuffer res w1 = (y, w2)"
        by (cases "arrayBuffer res w1")
      from adds_trans [OF a1 arrayBuffer_adds [OF a]] have a2: "adds P w w2" .
      show ?thesis
      proof (cases y)
        case (Inl e)
        with True Inr f a lt a2 show ?thesis by (simp add: measureLatency_loop.simps)
      next
        case (Inr u)
        have n: "n = LATENCY_ATTEMPTS - (i + 1)" using Suc.hyps(2) by simp
        from Suc.hyps(1) [OF n]
        have "adds P w2 (snd (measureLatency_loop sig (i + 1) (acc @ [now w2 - now w]) w2))" .
        with a2 have "adds P w (snd (measureLatency_loop sig (i + 1) (acc @ [now w2 - now w]) w2))"
          by (rule adds_trans)
        with True \<open>x = Inr res\<close> Inr f a lt show ?thesis
          by (simp add: measureLatency_loop.simps Let_def)
      qed
    qed
  qed
qed

lemma measureLatency_adds:
  "P (Fetch GetLatency) \<Longrightarrow> adds P w (snd (measureLatency sig w))"
  using measureLatency_loop_adds [of P w sig 0 "[]"]
  by (cases "measureLatency_loop sig 0 [] w")
     (auto simp: measureLatency_def Let_def split: sum.splits)

lemma measureDownloadForSize_adds:
  fixes w :: "'z world_scheme"
  assumes P: "P (Fetch (GetDownload b))"
  shows "adds P w (snd (measureDownloadForSize b sig w))"
proof -
  obtain x and w1 :: "'z world_scheme" where f: "fetch (GetDownload b) sig w = (x, w1)"
    by (cases "fetch (GetDownload b) sig w")
  note a1 = fetch_adds [where P = P, OF f P]
  show ?thesis
  proof (cases x)
    case (Inl e)
    with f a1 show ?thesis by (simp add: measureDownloadForSize_def)
  next
    case (Inr res)
    obtain y and w2 :: "'z world_scheme" where a: "arrayBuffer res w1 = (y, w2)"
      by (cases "arrayBuffer res w1")
    from adds_trans [OF a1 arrayBuffer_adds [OF a]] have "adds P w w2" .
    with Inr f a a1 show ?thesis
      by (cases y) (simp_all add: measureDownloadForSize_def Let_def)
  qed
qed

lemma measureUploadForSize_adds:
  fixes w :: "'z world_scheme"
  assumes P: "P (Fetch (PostUpload b))"
  shows "adds P w (snd (measureUploadForSize b sig w))"
proof (cases "quota w < b")
  case True
  then show ?thesis by (simp add: measureUploadForSize_def getRandomValues_def adds_refl)
next
  case False
  obtain x and w1 :: "'z world_scheme" where f: "fetch (PostUpload b) sig w = (x, w1)"
    by (cases "fetch (PostUpload b) sig w")
  note a1 = fetch_adds [where P = P, OF f P]
  show ?thesis
  proof (cases x)
    case (Inl e)
    with False f a1 show ?thesis by (simp add: measureUploadForSize_def getRandomValues_def)
  next
    case (Inr res)
    obtain y and w2 :: "'z world_scheme" where a: "arrayBuffer res w1 = (y, w2)"
      by (cases "arrayBuffer res w1")
    from adds_trans [OF a1 arrayBuffer_adds [OF a]] have "adds P w w2" .
    with False Inr f a a1 show ?thesis
      by (cases y) (simp_all add: measureUploadForSize_def getRandomValues_def Let_def)
  qed
qed

lemma withRetry_loop_adds:
  fixes w :: "'z world_scheme"
  assumes fn: "\<And>w :: 'z world_scheme. adds P w (snd (fn w))" and s: "\<And>ms. P (Sleep ms)"
  shows "adds P w (snd (withRetry_loop fn r a le w))"
proof (induction "nat (r + 1 - a)" arbitrary: a le w)
  case 0
  then show ?case by (simp add: withRetry_loop.simps adds_refl)
next
  case (Suc n)
  then have le: "a \<le> r" by simp
  obtain x and w1 :: "'z world_scheme" where f: "fn w = (x, w1)" by (cases "fn w")
  with fn [of w] have a1: "adds P w w1" by simp
  show ?case
  proof (cases x)
    case (Inr v)
    with f le a1 show ?thesis by (simp add: withRetry_loop.simps)
  next
    case (Inl e)
    show ?thesis
    proof (cases "a = r")
      case True
      with Inl f le a1 show ?thesis by (simp add: withRetry_loop.simps)
    next
      case False
      have n: "n = nat (r + 1 - (a + 1))" using Suc.hyps(2) by simp
      have "adds P w (sleep (300 * (a + 1)) w1)"
        using a1 sleep_adds [where P = P, OF s] by (rule adds_trans)
      from adds_trans [OF this Suc.hyps(1) [OF n]]
      have "adds P w (snd (withRetry_loop fn r (a + 1) (Some e) (sleep (300 * (a + 1)) w1)))" .
      with False Inl f le show ?thesis by (simp add: withRetry_loop.simps)
    qed
  qed
qed

lemma withRetry_adds:
  fixes w :: "'z world_scheme"
  assumes "\<And>w :: 'z world_scheme. adds P w (snd (fn w))" and "\<And>ms. P (Sleep ms)"
  shows "adds P w (snd (withRetry fn r w))"
  unfolding withRetry_def using assms by (rule withRetry_loop_adds)


lemma download_loop_adds:
  fixes w :: "'z world_scheme"
  assumes s: "\<And>ms. P (Sleep ms)" and d: "\<And>b. P (Fetch (GetDownload b))"
    and p: "\<And>v. onProgress opts \<Longrightarrow> P (Progress v Download)"
  shows "adds P w (snd (download_loop opts i acc w))"
proof (induction "length DOWNLOAD_SIZES - i" arbitrary: i acc w)
  case 0
  then show ?case by (simp add: download_loop.simps adds_refl)
next
  case (Suc n)
  then have lt: "i < length DOWNLOAD_SIZES" by simp
  let ?fn = "measureDownloadForSize (DOWNLOAD_SIZES ! i) (signal opts) :: 'z world_scheme \<Rightarrow> _"
  obtain x and w1 :: "'z world_scheme" where f: "withRetry ?fn (retries opts) w = (x, w1)"
    by (cases "withRetry ?fn (retries opts) w")
  have "adds P w (snd (withRetry ?fn (retries opts) w))"
    by (rule withRetry_adds) (rule measureDownloadForSize_adds, rule d, rule s)
  with f have a1: "adds P w w1" by simp
  show ?case
  proof (cases x)
    case (Inl e)
    with f lt a1 show ?thesis by (simp add: download_loop.simps)
  next
    case (Inr sample)
    let ?w2 = "progress opts (20 + (real (i + 1) / real (length DOWNLOAD_SIZES)) * 55) Download w1"
    have "adds P w1 ?w2" by (rule progress_adds) (rule p)
    with a1 have a2: "adds P w ?w2" by (rule adds_trans)
    have n: "n = length DOWNLOAD_SIZES - (i + 1)" using Suc.hyps(2) by simp
    from adds_trans [OF a2 Suc.hyps(1) [OF n]]
    have "adds P w (snd (download_loop opts (i + 1) (acc @ [sample]) ?w2))" .
    with Inr f lt show ?thesis by (simp add: download_loop.simps Let_def)
  qed
qed

lemma upload_loop_adds:
  fixes w :: "'z world_scheme"
  assumes s: "\<And>ms. P (Sleep ms)" and d: "\<And>b. P (Fetch (PostUpload b))"
    and p: "\<And>v. onProgress opts \<Longrightarrow> P (Progress v Upload)"
  shows "adds P w (snd (upload_loop opts i acc w))"
proof (induction "length UPLOAD_SIZES - i" arbitrary: i acc w)
  case 0
  then show ?case by (simp add: upload_loop.simps adds_refl)
next
  case (Suc n)
  then have lt: "i < length UPLOAD_SIZES" by simp
  let ?fn = "measureUploadForSize (UPLOAD_SIZES ! i) (signal opts) :: 'z world_scheme \<Rightarrow> _"
  obtain x and w1 :: "'z world_scheme" where f: "withRetry ?fn (retries opts) w = (x, w1)"
    by (cases "withRetry ?fn (retries opts) w")
  have "adds P w (snd (withRetry ?fn (retries opts) w))"
    by (rule withRetry_adds) (rule measureUploadForSize_adds, rule d, rule s)
  with f have a1: "adds P w w1" by simp
  show ?case
  proof (cases x)
    case (Inl e)
    with f lt a1 show ?thesis by (simp add: upload_loop.simps)
  next
    case (Inr sample)
    let ?w2 = "progress opts (80 + (real (i + 1) / real (length UPLOAD_SIZES)) * 18) Upload w1"
    have "adds P w1 ?w2" by (rule progress_adds) (rule p)
    with a1 have a2: "adds P w ?w2" by (rule adds_trans)
    have n: "n = length UPLOAD_SIZES - (i + 1)" using Suc.hyps(2) by simp
    from adds_trans [OF a2 Suc.hyps(1) [OF n]]
    have "adds P w (snd (upload_loop opts (i + 1) (acc @ [sample]) ?w2))" .
    with Inr f lt show ?thesis by (simp add: upload_loop.simps Let_def)
  qed
qed

lemma upload_stage_adds:
  fixes w :: "'z world_scheme"
  assumes s: "\<And>ms. P (Sleep ms)" and d: "\<And>b. enableUpload opts \<Longrightarrow> P (Fetch (PostUpload b))"
    and p: "\<And>v. enableUpload opts \<Longrightarrow> onProgress opts \<Longrightarrow> P (Progress v Upload)"
  shows "adds P w (snd (upload_stage opts w))"
proof (cases "enableUpload opts")
  case False
  then show ?thesis by (simp add: upload_stage_def adds_refl)
next
  case True
  have "adds P w (snd (upload_loop opts 0 [] w))"
    by (rule upload_loop_adds) (rule s, rule d [OF True], rule p [OF True])
  with True show ?thesis
    by (cases "upload_loop opts 0 [] w") (auto simp: upload_stage_def split: sum.splits)
qed

lemma runSpeedTest_adds:
  fixes w :: "'z world_scheme"
  assumes s: "\<And>ms. P (Sleep ms)" and l: "P (Fetch GetLatency)"
    and d: "\<And>b. P (Fetch (GetDownload b))"
    and u: "\<And>b. enableUpload opts \<Longrightarrow> P (Fetch (PostUpload b))"
    and pl: "\<And>v. onProgress opts \<Longrightarrow> P (Progress v Latency)"
    and pd: "\<And>v. onProgress opts \<Longrightarrow> P (Progress v Download)"
    and pu: "\<And>v. enableUpload opts \<Longrightarrow> onProgress opts \<Longrightarrow> P (Progress v Upload)"
    and pc: "\<And>v. onProgress opts \<Longrightarrow> P (Progress v Completed)"
  shows "adds P w (snd (runSpeedTest opts w))"
proof -
  let ?w0 = "progress opts 2 Latency w"
  have a0: "adds P w ?w0" by (rule progress_adds) (rule pl)
  let ?fn = "measureLatency (signal opts) :: 'z world_scheme \<Rightarrow> _"
  obtain x1 and w1 :: "'z world_scheme" where
    f1: "withRetry ?fn (retries opts) ?w0 = (x1, w1)"
    by (cases "withRetry ?fn (retries opts) ?w0")
  have "adds P ?w0 (snd (withRetry ?fn (retries opts) ?w0))"
    by (rule withRetry_adds) (rule measureLatency_adds, rule l, rule s)
  with f1 a0 have a1: "adds P w w1" by (auto intro: adds_trans)
  show ?thesis
  proof (cases x1)
    case (Inl e)
    with f1 a1 show ?thesis by (simp add: runSpeedTest_def)
  next
    case (Inr lat)
    note x1 = this
    let ?w1 = "progress opts 20 Latency w1"
    have "adds P w1 ?w1" by (rule progress_adds) (rule pl)
    with a1 have a1': "adds P w ?w1" by (rule adds_trans)
    obtain x2 and w2 :: "'z world_scheme" where f2: "download_loop opts 0 [] ?w1 = (x2, w2)"
      by (cases "download_loop opts 0 [] ?w1")
    have "adds P ?w1 (snd (download_loop opts 0 [] ?w1))"
      by (rule download_loop_adds) (rule s, rule d, rule pd)
    with f2 a1' have a2: "adds P w w2" by (auto intro: adds_trans)
    show ?thesis
    proof (cases x2)
      case (Inl e)
      with x1 f1 f2 a2 show ?thesis by (simp add: runSpeedTest_def)
    next
      case (Inr ds)
      note x2 = this
      obtain x3 and w3 :: "'z world_scheme" where f3: "upload_stage opts w2 = (x3, w3)"
        by (cases "upload_stage opts w2")
      have "adds P w2 (snd (upload_stage opts w2))"
        by (rule upload_stage_adds) (rule s, rule u, assumption, rule pu)
      with f3 a2 have a3: "adds P w w3" by (auto intro: adds_trans)
      show ?thesis
      proof (cases x3)
        case (Inl e)
        with x1 x2 f1 f2 f3 a3 show ?thesis by (simp add: runSpeedTest_def)
      next
        case (Inr up)
        have "adds P w3 (progress opts 100 Completed w3)" by (rule progress_adds) (rule pc)
        with a3 have "adds P w (progress opts 100 Completed w3)" by (rule adds_trans)
        with Inr x1 x2 f1 f2 f3 show ?thesis by (simp add: runSpeedTest_def Let_def)
      qed
    qed
  qed
qed































text \<open>
  Claim C5. With \<open>enableUpload = false\<close> the upload stage does nothing at all, the run
  issues no upload request and reports no progress with phase \<open>upload\<close>, and the
  \<open>uploadMbps\<close> of a run that returns is \<^verbatim>\<open>null\<close>.
\<close>

theorem upload_disabled:
  fixes w :: "'z world_scheme"
  assumes "\<not> enableUpload opts"
  shows "(\<forall>w2 :: 'z world_scheme. upload_stage opts w2 = (Inr None, w2)) \<and>
    (\<exists>evs. trace (snd (runSpeedTest opts w)) = trace w @ evs \<and>
       (\<forall>e\<in>set evs. (\<forall>b. e \<noteq> Fetch (PostUpload b)) \<and> (\<forall>v. e \<noteq> Progress v Upload))) \<and>
    (\<forall>res. fst (runSpeedTest opts w) = Inr res \<longrightarrow> uploadMbps res = None)"
proof (intro conjI allI impI)
  fix w2 :: "'z world_scheme"
  show "upload_stage opts w2 = (Inr None, w2)" using assms by (simp add: upload_stage_def)
next
  have "adds (\<lambda>e. (\<forall>b. e \<noteq> Fetch (PostUpload b)) \<and> (\<forall>v. e \<noteq> Progress v Upload)) w
          (snd (runSpeedTest opts w))"
    by (rule runSpeedTest_adds) (simp_all add: assms)
  then show "\<exists>evs. trace (snd (runSpeedTest opts w)) = trace w @ evs \<and>
       (\<forall>e\<in>set evs. (\<forall>b. e \<noteq> Fetch (PostUpload b)) \<and> (\<forall>v. e \<noteq> Progress v Upload))"
    by (simp add: adds_def)
next
  fix res assume "fst (runSpeedTest opts w) = Inr res"
  then have "runSpeedTest opts w = (Inr res, snd (runSpeedTest opts w))"
    by (metis prod.collapse)
  then obtain up and w2 w3 :: "'z world_scheme" where
    "upload_stage opts w2 = (Inr up, w3)" and "uploadMbps res = up"
    by (rule runSpeedTest_Inr) simp
  with assms show "uploadMbps res = None" by (simp add: upload_stage_def)
qed

theorem upload_disabled_witness:
  "\<not> enableUpload run_options \<and>
   fst (runSpeedTest run_options run_world) =
     Inr \<lparr>downloadMbps = Some (Num (917504 / 9375)), uploadMbps = None,
           latency = Some \<lparr>average = 20, min_ms = 20, max_ms = 20, jitter = 0,
                            samples = [20, 20, 20, 20, 20, 20, 20, 20]\<rparr>,
           timestamp = 1460\<rparr> \<and>
   uploadMbps \<lparr>downloadMbps = Some (Num (917504 / 9375)), uploadMbps = None,
           latency = Some \<lparr>average = 20, min_ms = 20, max_ms = 20, jitter = 0,
                            samples = [20, 20, 20, 20, 20, 20, 20, 20]\<rparr>,
           timestamp = 1460\<rparr> = None \<and>
   upload_stage run_options run_world = (Inr None, run_world)"
proof -
  have off: "\<not> enableUpload run_options" by (simp add: run_options_def)
  have f: "fst (runSpeedTest run_options run_world) =
     Inr \<lparr>downloadMbps = Some (Num (917504 / 9375)), uploadMbps = None,
           latency = Some \<lparr>average = 20, min_ms = 20, max_ms = 20, jitter = 0,
                            samples = [20, 20, 20, 20, 20, 20, 20, 20]\<rparr>,
           timestamp = 1460\<rparr>"
    by (simp only: example_run fst_conv)
  note t = upload_disabled [OF off, of run_world]
  from t have "upload_stage run_options run_world = (Inr None, run_world)" by blast
  moreover from t f have "uploadMbps \<lparr>downloadMbps = Some (Num (917504 / 9375)), uploadMbps = None,
           latency = Some \<lparr>average = 20, min_ms = 20, max_ms = 20, jitter = 0,
                            samples = [20, 20, 20, 20, 20, 20, 20, 20]\<rparr>,
           timestamp = 1460\<rparr> = None" by blast
  ultimately show ?thesis using off f by blast
qed

text \<open>
  Claim C10. In every run, each phase passed to the progress callback is \<open>latency\<close>,
  \<open>download\<close>, \<open>upload\<close> or \<open>completed\<close>, never \<open>idle\<close> or \<open>error\<close>.
\<close>

theorem reported_phases:
  fixes w :: "'z world_scheme"
  shows "\<exists>evs. trace (snd (runSpeedTest opts w)) = trace w @ evs \<and>
    (\<forall>e\<in>set evs. \<forall>v p. e = Progress v p \<longrightarrow>
       p \<noteq> Idle \<and> p \<noteq> Error \<and> (p = Latency \<or> p = Download \<or> p = Upload \<or> p = Completed))"
proof -
  have "adds (\<lambda>e. \<forall>v p. e = Progress v p \<longrightarrow>
       p \<noteq> Idle \<and> p \<noteq> Error \<and> (p = Latency \<or> p = Download \<or> p = Upload \<or> p = Completed)) w
          (snd (runSpeedTest opts w))"
    by (rule runSpeedTest_adds) simp_all
  then show ?thesis by (simp add: adds_def)
qed

theorem reported_phases_witness:
  "map snd (progress_of (trace (snd (runSpeedTest run_options run_world)))) =
     [Latency, Latency, Download, Download, Download, Completed] \<and>
   (\<exists>evs. trace (snd (runSpeedTest run_options run_world)) = trace run_world @ evs \<and>
      (\<forall>e\<in>set evs. \<forall>v p. e = Progress v p \<longrightarrow>
         p \<noteq> Idle \<and> p \<noteq> Error \<and> (p = Latency \<or> p = Download \<or> p = Upload \<or> p = Completed)))"
proof
  show "map snd (progress_of (trace (snd (runSpeedTest run_options run_world)))) =
     [Latency, Latency, Download, Download, Download, Completed]"
    by (simp add: example_run)
  show "\<exists>evs. trace (snd (runSpeedTest run_options run_world)) = trace run_world @ evs \<and>
      (\<forall>e\<in>set evs. \<forall>v p. e = Progress v p \<longrightarrow>
         p \<noteq> Idle \<and> p \<noteq> Error \<and> (p = Latency \<or> p = Download \<or> p = Upload \<or> p = Completed))"
    by (rule reported_phases)
qed

subsection \<open>Cancellation\<close>














text \<open>
  When the signal fires after the downloads of a run with the upload enabled, on a platform
  with the quota of the standard, the run ends with the quota error of the upload probe, not
  with the abort error.
\<close>

lemma late_cancel_run:
  "fst (runSpeedTest late_cancel_options late_cancel_world) = Inl (Some QuotaExceededError) \<and>
   drop 16 (trace (snd (runSpeedTest late_cancel_options late_cancel_world))) =
     [Sleep 300, Sleep 600]"
  by (simp add: run_simps late_cancel_world_def late_cancel_options_def run_world_def
      world0_def)

end
